theory Spec2Isabelle
  imports Main
begin

section \<open>The WebSocket gateway of server/index.ts\<close>

subsection \<open>Calls into the runtime\<close>

text \<open>
  The handlers of \<^verbatim>\<open>server/index.ts\<close> act on the outside world only through calls
  into Node and the \<^verbatim>\<open>ws\<close> library. Each such call is recorded, in program order and
  with the time of the event being handled, in the connection's \<open>calls\<close>.
\<close>

datatype call =
    ConsoleLog string
  | ConsoleError string
  | SetInterval nat
  | ClearInterval
  | WsTerminate
  | WsPing
  | WsSend string

text \<open>
  One connection, as the closure of the \<^verbatim>\<open>'connection'\<close> callback sees it:
  \<open>isAlive\<close> is \<^verbatim>\<open>ws.isAlive\<close>; \<open>heartbeat_active\<close> says whether the interval timer
  \<^verbatim>\<open>heartbeat\<close> is still scheduled; \<open>cancelled\<close> counts how often a scheduled timer was
  cancelled; \<open>socket_open\<close> is false once the transport is closed or destroyed;
  \<open>now\<close> is the time in milliseconds of the event being handled.
\<close>

record conn =
  isAlive :: bool
  heartbeat_active :: bool
  cancelled :: nat
  socket_open :: bool
  now :: nat
  calls :: "(nat \<times> call) list"

definition invoke :: "call \<Rightarrow> conn \<Rightarrow> conn" where
  "invoke c ws = ws\<lparr>calls := calls ws @ [(now ws, c)]\<rparr>"

definition console_log :: "string \<Rightarrow> conn \<Rightarrow> conn" where
  "console_log s ws = invoke (ConsoleLog s) ws"

definition console_error :: "string \<Rightarrow> conn \<Rightarrow> conn" where
  "console_error s ws = invoke (ConsoleError s) ws"

text \<open>
  \<^verbatim>\<open>clearInterval(heartbeat)\<close>: cancels the timer when it is scheduled and does nothing
  to a timer that was cancelled before; the call itself is recorded either way.
\<close>

definition clearInterval :: "conn \<Rightarrow> conn" where
  "clearInterval ws =
     invoke ClearInterval
       (if heartbeat_active ws
        then ws\<lparr>heartbeat_active := False, cancelled := Suc (cancelled ws)\<rparr>
        else ws)"

text \<open>\<^verbatim>\<open>ws.terminate()\<close> destroys the socket without a closing handshake.\<close>

definition ws_terminate :: "conn \<Rightarrow> conn" where
  "ws_terminate ws = invoke WsTerminate (ws\<lparr>socket_open := False\<rparr>)"

definition ws_ping :: "conn \<Rightarrow> conn" where
  "ws_ping ws = invoke WsPing ws"

definition ws_send :: "string \<Rightarrow> conn \<Rightarrow> conn" where
  "ws_send frame ws = invoke (WsSend frame) ws"

subsection \<open>Decoded JSON\<close>

text \<open>
  The values \<^verbatim>\<open>JSON.parse\<close> returns. The handler never looks at a number, so the type
  of numbers is left open. An object lists its members in the order of the text; of two
  members with one key the later wins, as in JavaScript.
\<close>

datatype 'n json =
    JNull
  | JBool bool
  | JNumber 'n
  | JString string
  | JArray "'n json list"
  | JObject "(string \<times> 'n json) list"

datatype exn = SyntaxError | TypeError

text \<open>
  \<^verbatim>\<open>JSON.parse\<close> is a built-in of the language and a parameter here: it returns the
  decoded value or throws a \<^verbatim>\<open>SyntaxError\<close>.
\<close>

type_synonym 'n parser = "string \<Rightarrow> exn + 'n json"

text \<open>
  The property read \<^verbatim>\<open>data.type\<close>: it throws a \<^verbatim>\<open>TypeError\<close> on \<^verbatim>\<open>null\<close>, reads the member
  of an object, and is \<^verbatim>\<open>undefined\<close> (here \<open>None\<close>) on an object without that member
  and on every boolean, number, string and array.
\<close>

fun get_type :: "'n json \<Rightarrow> exn + 'n json option" where
  "get_type JNull = Inl TypeError"
| "get_type (JObject members) = Inr (map_of (rev members) ''type'')"
| "get_type (JBool b) = Inr None"
| "get_type (JNumber n) = Inr None"
| "get_type (JString s) = Inr None"
| "get_type (JArray vs) = Inr None"

text \<open>
  The two frames the handler sends: \<^verbatim>\<open>JSON.stringify({ type: 'ack' })\<close> and
  \<^verbatim>\<open>JSON.stringify({ type: 'error', message: 'Invalid message format' })\<close>.
\<close>

definition ack_frame :: string where
  \<open>ack_frame = ''{"type":"ack"}''\<close>

definition error_frame :: string where
  \<open>error_frame = ''{"type":"error","message":"Invalid message format"}''\<close>

subsection \<open>The handlers of one connection\<close>

text \<open>
  The body of the \<^verbatim>\<open>'connection'\<close> callback, run at time \<open>t0\<close>: it logs, sets
  \<^verbatim>\<open>ws.isAlive = true\<close> and starts the interval timer of 30000 ms. (Registering the
  listeners is not a call that is recorded.)
\<close>

definition heartbeat_period :: nat where
  "heartbeat_period = 30000"

definition on_connection :: "nat \<Rightarrow> conn" where
  "on_connection t0 =
     invoke (SetInterval heartbeat_period)
       (console_log ''New WebSocket connection established''
          \<lparr>isAlive = True, heartbeat_active = True, cancelled = 0,
           socket_open = True, now = t0, calls = []\<rparr>)"

text \<open>\<^verbatim>\<open>ws.on('pong', () => { ws.isAlive = true; })\<close>\<close>

definition on_pong :: "conn \<Rightarrow> conn" where
  "on_pong ws = ws\<lparr>isAlive := True\<rparr>"

text \<open>The callback of \<^verbatim>\<open>setInterval\<close>, lines 133 to 140.\<close>

definition heartbeat :: "conn \<Rightarrow> conn" where
  "heartbeat ws =
     (if \<not> isAlive ws
      then ws_terminate (clearInterval ws)
      else ws_ping (ws\<lparr>isAlive := False\<rparr>))"

definition on_close :: "conn \<Rightarrow> conn" where
  "on_close ws = clearInterval (console_log ''WebSocket connection closed'' ws)"

definition on_error :: "conn \<Rightarrow> conn" where
  "on_error ws = clearInterval (console_error ''WebSocket error:'' ws)"

text \<open>
  The \<^verbatim>\<open>try\<close> block of the message handler: \<open>Inl\<close> is an exception thrown inside it,
  by \<^verbatim>\<open>JSON.parse\<close> or by the property read.
\<close>

definition message_try :: "'n parser \<Rightarrow> string \<Rightarrow> conn \<Rightarrow> exn + conn" where
  "message_try JSON_parse message ws =
     (case JSON_parse message of
        Inl e \<Rightarrow> Inl e
      | Inr data \<Rightarrow>
          (case get_type data of
             Inl e \<Rightarrow> Inl e
           | Inr t \<Rightarrow>
               Inr (if t = Some (JString ''pong'') then ws_send ack_frame ws else ws)))"

text \<open>
  The message handler with its \<^verbatim>\<open>catch\<close> block. The result is again a sum, so that an
  exception leaving the handler would be a value \<open>Inl\<close>.
\<close>

definition on_message :: "'n parser \<Rightarrow> string \<Rightarrow> conn \<Rightarrow> exn + conn" where
  "on_message JSON_parse message ws =
     (case message_try JSON_parse message ws of
        Inr ws' \<Rightarrow> Inr ws'
      | Inl error \<Rightarrow>
          Inr (ws_send error_frame (console_error ''WebSocket message error:'' ws)))"

subsection \<open>Events of one connection\<close>

text \<open>
  What the runtime delivers to a connection. A timer that was cancelled never fires, so
  a tick reaches \<open>heartbeat\<close> only while the timer is scheduled. The \<^verbatim>\<open>'close'\<close> event
  tells that the transport is closed. An exception leaving a handler would leave the
  connection as it was when the handler started.
\<close>

datatype event = TimerTick | PongFrame | CloseEvent | ErrorEvent | MessageFrame string

definition deliver :: "'n parser \<Rightarrow> event \<Rightarrow> conn \<Rightarrow> conn" where
  "deliver JSON_parse e ws =
     (case e of
        TimerTick \<Rightarrow> if heartbeat_active ws then heartbeat ws else ws
      | PongFrame \<Rightarrow> on_pong ws
      | CloseEvent \<Rightarrow> on_close (ws\<lparr>socket_open := False\<rparr>)
      | ErrorEvent \<Rightarrow> on_error ws
      | MessageFrame message \<Rightarrow>
          (case on_message JSON_parse message ws of Inr ws' \<Rightarrow> ws' | Inl error \<Rightarrow> ws))"

text \<open>A run over events with their times, in the order of delivery.\<close>

fun run :: "'n parser \<Rightarrow> (nat \<times> event) list \<Rightarrow> conn \<Rightarrow> conn" where
  "run JSON_parse [] ws = ws"
| "run JSON_parse ((t, e) # evs) ws = run JSON_parse evs (deliver JSON_parse e (ws\<lparr>now := t\<rparr>))"

text \<open>
  A decoder for the payloads of the examples below. On each payload it names it returns
  what \<^verbatim>\<open>JSON.parse\<close> returns; every other text it rejects, so it is used only on the
  payloads named here and on \<^verbatim>\<open>not json\<close>, which is no JSON text.
\<close>

definition example_parse :: "nat parser" where
  \<open>example_parse s =
     (if s = ''{"type":"pong"}'' then Inr (JObject [(''type'', JString ''pong'')])
      else if s = ''{"type":"hello"}'' then Inr (JObject [(''type'', JString ''hello'')])
      else if s = ''{}'' then Inr (JObject [])
      else if s = ''42'' then Inr (JNumber 42)
      else if s = ''null'' then Inr JNull
      else Inl SyntaxError)\<close>

subsection \<open>Probes and their answers\<close>

text \<open>
  A connection answers every probe when a pong is delivered between any tick and the
  next one; \<open>answered\<close> says that no probe is outstanding.
\<close>

fun answers_every_probe :: "bool \<Rightarrow> event list \<Rightarrow> bool" where
  "answers_every_probe answered [] = True"
| "answers_every_probe answered (TimerTick # evs) = (answered \<and> answers_every_probe False evs)"
| "answers_every_probe answered (PongFrame # evs) = answers_every_probe True evs"
| "answers_every_probe answered (e # evs) = answers_every_probe answered evs"

text \<open>
  The timer of \<^verbatim>\<open>setInterval(f, 30000)\<close> fires every 30000 ms: in a run on schedule the
  times do not decrease, a tick is delivered at the time \<open>due\<close> and moves \<open>due\<close> on by one
  period, and no event later than \<open>due\<close> is delivered before that tick. \<open>prev\<close> is the time
  of the event before.
\<close>

fun on_schedule :: "nat \<Rightarrow> nat \<Rightarrow> (nat \<times> event) list \<Rightarrow> bool" where
  "on_schedule due prev [] = True"
| "on_schedule due prev ((t, e) # evs) =
     (prev \<le> t \<and> t \<le> due \<and>
      (if e = TimerTick then t = due \<and> on_schedule (due + heartbeat_period) t evs
       else on_schedule due t evs))"

text \<open>
  A silent peer: nothing is delivered but ticks and application messages, so no pong
  arrives and the connection is not closed from outside. \<open>ticks\<close> counts the ticks of a
  run; \<open>terminated_at\<close> holds the times at which \<^verbatim>\<open>ws.terminate()\<close> was called.
\<close>

fun silent :: "(nat \<times> event) list \<Rightarrow> bool" where
  "silent [] = True"
| "silent ((t, TimerTick) # evs) = silent evs"
| "silent ((t, MessageFrame m) # evs) = silent evs"
| "silent ((t, e) # evs) = False"

fun ticks :: "(nat \<times> event) list \<Rightarrow> nat" where
  "ticks [] = 0"
| "ticks ((t, e) # evs) = (if e = TimerTick then Suc (ticks evs) else ticks evs)"

text \<open>
  How often \<^verbatim>\<open>clearInterval(heartbeat)\<close> and \<^verbatim>\<open>ws.terminate()\<close> were called on a
  connection, and how often an event occurs in a run.
\<close>

definition clear_calls :: "conn \<Rightarrow> nat" where
  "clear_calls ws = length (filter (\<lambda>c. snd c = ClearInterval) (calls ws))"

definition terminations :: "conn \<Rightarrow> nat" where
  "terminations ws = length (filter (\<lambda>c. snd c = WsTerminate) (calls ws))"


definition terminated_at :: "conn \<Rightarrow> nat set" where
  "terminated_at ws = fst ` set (filter (\<lambda>c. snd c = WsTerminate) (calls ws))"

section \<open>Shutdown of the process\<close>

subsection \<open>Process state and runtime calls\<close>

datatype signal = SIGTERM | SIGINT

text \<open>
  The calls of the shutdown code. \<open>ClientClose\<close> and \<open>ClientTerminate\<close> stand for
  \<^verbatim>\<open>close()\<close> and \<^verbatim>\<open>terminate()\<close> on the connection with that number; no
  line of the shutdown code makes either call.
\<close>

datatype pcall =
    Log string
  | LogError string
  | WssClose
  | ServerClose
  | SetTimeout nat
  | ProcessExit int
  | ClientClose nat
  | ClientTerminate nat

text \<open>
  \<open>clock\<close> is the time in milliseconds; \<open>clients\<close> are the connections the WebSocket
  server holds (\<^verbatim>\<open>wss.clients\<close>, kept by the library); \<open>wss_close_listeners\<close> and
  \<open>server_close_listeners\<close> count the callbacks given to \<^verbatim>\<open>wss.close\<close> and
  \<^verbatim>\<open>server.close\<close> that wait for the \<^verbatim>\<open>'close'\<close> event of that server; \<open>timeouts\<close> are
  the times at which the pending \<^verbatim>\<open>setTimeout\<close> timers of \<open>shutdown\<close> are due;
  \<open>exit_code\<close> is \<open>None\<close> while the process lives.
\<close>

record process =
  clock :: nat
  clients :: "nat list"
  wss_close_listeners :: nat
  server_close_listeners :: nat
  timeouts :: "nat list"
  exit_code :: "int option"
  pcalls :: "(nat \<times> pcall) list"

definition pinvoke :: "pcall \<Rightarrow> process \<Rightarrow> process" where
  "pinvoke c p = p\<lparr>pcalls := pcalls p @ [(clock p, c)]\<rparr>"

definition plog :: "string \<Rightarrow> process \<Rightarrow> process" where
  "plog s p = pinvoke (Log s) p"

definition plog_error :: "string \<Rightarrow> process \<Rightarrow> process" where
  "plog_error s p = pinvoke (LogError s) p"

text \<open>\<^verbatim>\<open>wss.close(cb)\<close>: the callback waits for the \<^verbatim>\<open>'close'\<close> event of the WebSocket server.\<close>

definition wss_close :: "process \<Rightarrow> process" where
  "wss_close p = pinvoke WssClose (p\<lparr>wss_close_listeners := Suc (wss_close_listeners p)\<rparr>)"

definition server_close :: "process \<Rightarrow> process" where
  "server_close p = pinvoke ServerClose (p\<lparr>server_close_listeners := Suc (server_close_listeners p)\<rparr>)"

definition set_timeout :: "nat \<Rightarrow> process \<Rightarrow> process" where
  "set_timeout delay p = pinvoke (SetTimeout delay) (p\<lparr>timeouts := timeouts p @ [clock p + delay]\<rparr>)"

definition process_exit :: "int \<Rightarrow> process \<Rightarrow> process" where
  "process_exit code p = pinvoke (ProcessExit code) (p\<lparr>exit_code := Some code\<rparr>)"

subsection \<open>The shutdown code, lines 196 to 228\<close>

text \<open>The callback of \<^verbatim>\<open>server.close\<close>.\<close>

definition server_closed_callback :: "process \<Rightarrow> process" where
  "server_closed_callback p = process_exit 0 (plog ''HTTP server closed'' p)"

text \<open>The callback of \<^verbatim>\<open>wss.close\<close>.\<close>

definition wss_closed_callback :: "process \<Rightarrow> process" where
  "wss_closed_callback p = server_close (plog ''WebSocket server closed'' p)"

text \<open>The callback of \<^verbatim>\<open>setTimeout\<close>.\<close>

definition force_close_callback :: "process \<Rightarrow> process" where
  "force_close_callback p =
     process_exit 1
       (plog_error ''Could not close connections in time, forcefully shutting down'' p)"

definition shutdown_timeout :: nat where
  "shutdown_timeout = 10000"

definition shutdown :: "process \<Rightarrow> process" where
  "shutdown p = set_timeout shutdown_timeout (wss_close (plog ''Shutting down gracefully...'' p))"

text \<open>
  \<^verbatim>\<open>shutdown().catch(() => process.exit(1))\<close>: the body of \<open>shutdown\<close> throws nowhere, so
  its promise is fulfilled and the \<^verbatim>\<open>catch\<close> callback does not run.
\<close>

definition on_uncaughtException :: "process \<Rightarrow> process" where
  "on_uncaughtException p = shutdown (plog_error ''Uncaught Exception:'' p)"

definition on_unhandledRejection :: "process \<Rightarrow> process" where
  "on_unhandledRejection p = plog_error ''Unhandled Rejection at:'' p"

subsection \<open>Events of the process\<close>

text \<open>
  \<open>WssClosed\<close> and \<open>ServerClosed\<close> are the \<^verbatim>\<open>'close'\<close> events of the two servers;
  \<open>Elapse d\<close> lets \<open>d\<close> milliseconds pass. Nothing runs in a process that has exited.
  When the events come is left to the runtime. The WebSocket server reports closed only
  when it holds no connection, and with none it does so right after \<^verbatim>\<open>wss.close\<close>,
  before another signal can be handled; so statements about a run in which a second
  signal meets a drain under way are made for a process with a connection still open.
\<close>

datatype pevent =
    Signal signal
  | UncaughtException
  | UnhandledRejection
  | WssClosed
  | ServerClosed
  | Elapse nat

text \<open>Run the \<open>n\<close> waiting copies of a callback, as long as the process lives.\<close>

fun run_listeners :: "nat \<Rightarrow> (process \<Rightarrow> process) \<Rightarrow> process \<Rightarrow> process" where
  "run_listeners 0 f p = p"
| "run_listeners (Suc n) f p = (if exit_code p \<noteq> None then p else run_listeners n f (f p))"

text \<open>
  Time passes: when a timer is due within the \<open>d\<close> milliseconds, the earliest one fires
  at its time, and its callback exits the process; otherwise the clock moves on.
\<close>

definition elapse :: "nat \<Rightarrow> process \<Rightarrow> process" where
  "elapse d p =
     (let due = filter (\<lambda>t. t \<le> clock p + d) (timeouts p) in
      if due = [] then p\<lparr>clock := clock p + d\<rparr>
      else force_close_callback
             (p\<lparr>clock := max (clock p) (Min (set due)),
               timeouts := remove1 (Min (set due)) (timeouts p)\<rparr>))"

definition pstep :: "pevent \<Rightarrow> process \<Rightarrow> process" where
  "pstep e p =
     (if exit_code p \<noteq> None then p
      else case e of
        Signal s \<Rightarrow> shutdown p
      | UncaughtException \<Rightarrow> on_uncaughtException p
      | UnhandledRejection \<Rightarrow> on_unhandledRejection p
      | WssClosed \<Rightarrow>
          run_listeners (wss_close_listeners p) wss_closed_callback
            (p\<lparr>wss_close_listeners := 0\<rparr>)
      | ServerClosed \<Rightarrow>
          run_listeners (server_close_listeners p) server_closed_callback
            (p\<lparr>server_close_listeners := 0\<rparr>)
      | Elapse d \<Rightarrow> elapse d p)"

fun prun :: "pevent list \<Rightarrow> process \<Rightarrow> process" where
  "prun [] p = p"
| "prun (e # evs) p = prun evs (pstep e p)"

text \<open>The process once the server is listening, at time \<open>t\<close> with the connections \<open>cs\<close>.\<close>

definition running :: "nat \<Rightarrow> nat list \<Rightarrow> process" where
  "running t cs =
     \<lparr>clock = t, clients = cs, wss_close_listeners = 0, server_close_listeners = 0,
      timeouts = [], exit_code = None, pcalls = []\<rparr>"

text \<open>The time that passes in a list of events.\<close>

fun elapsed :: "pevent list \<Rightarrow> nat" where
  "elapsed [] = 0"
| "elapsed (Elapse d # evs) = d + elapsed evs"
| "elapsed (e # evs) = elapsed evs"

definition count_calls :: "pcall \<Rightarrow> process \<Rightarrow> nat" where
  "count_calls c p = length (filter (\<lambda>x. snd x = c) (pcalls p))"

definition exits :: "process \<Rightarrow> nat" where
  "exits p = length (filter (\<lambda>x. case snd x of ProcessExit code \<Rightarrow> True | _ \<Rightarrow> False) (pcalls p))"

section \<open>Properties\<close>

subsection \<open>The heartbeat tick\<close>

text \<open>
  C1. A heartbeat tick is a step function with two branches on \<open>isAlive\<close>: when the flag
  is false the tick cancels the timer and terminates the transport; otherwise it sets
  the flag to false and sends a ping. Of all events delivered to a connection whose flag
  is false, the pong is the only one after which the flag is true.
\<close>

theorem heartbeat_two_branches:
  "heartbeat ws =
     (if isAlive ws then ws_ping (ws\<lparr>isAlive := False\<rparr>) else ws_terminate (clearInterval ws))
   \<and> (\<not> isAlive ws \<longrightarrow>
        \<not> heartbeat_active (heartbeat ws) \<and> \<not> socket_open (heartbeat ws) \<and> \<not> isAlive (heartbeat ws)
        \<and> calls (heartbeat ws) = calls ws @ [(now ws, ClearInterval), (now ws, WsTerminate)])
   \<and> (isAlive ws \<longrightarrow>
        \<not> isAlive (heartbeat ws) \<and> heartbeat_active (heartbeat ws) = heartbeat_active ws
        \<and> socket_open (heartbeat ws) = socket_open ws
        \<and> calls (heartbeat ws) = calls ws @ [(now ws, WsPing)])
   \<and> (\<not> isAlive ws \<longrightarrow> (isAlive (deliver JSON_parse e ws) \<longleftrightarrow> e = PongFrame))"
  by (cases e)
     (auto simp: heartbeat_def deliver_def on_pong_def on_close_def on_error_def on_message_def
        message_try_def clearInterval_def ws_terminate_def ws_ping_def ws_send_def invoke_def
        console_log_def console_error_def split: sum.splits)

theorem heartbeat_two_branches_witness:
  "isAlive (on_connection 0)
   \<and> calls (heartbeat (on_connection 0)) = calls (on_connection 0) @ [(0, WsPing)]
   \<and> \<not> isAlive (heartbeat (on_connection 0))
   \<and> calls (heartbeat (heartbeat (on_connection 0)))
       = calls (heartbeat (on_connection 0)) @ [(0, ClearInterval), (0, WsTerminate)]
   \<and> isAlive (deliver example_parse PongFrame (heartbeat (on_connection 0)))
   \<and> \<not> isAlive (deliver example_parse CloseEvent (heartbeat (on_connection 0)))"
proof -
  have a: "isAlive (on_connection 0)" and n: "now (on_connection 0) = 0"
    by (simp_all add: on_connection_def invoke_def console_log_def)
  have b: "\<not> isAlive (heartbeat (on_connection 0))" and n': "now (heartbeat (on_connection 0)) = 0"
    by (simp_all add: heartbeat_def ws_ping_def on_connection_def invoke_def console_log_def)
  have c1: "calls (heartbeat (on_connection 0)) = calls (on_connection 0) @ [(now (on_connection 0), WsPing)]"
    using heartbeat_two_branches [of "on_connection 0" example_parse PongFrame] a by blast
  have c2: "calls (heartbeat (heartbeat (on_connection 0)))
       = calls (heartbeat (on_connection 0)) @ [(now (heartbeat (on_connection 0)), ClearInterval), (now (heartbeat (on_connection 0)), WsTerminate)]"
    and c3: "isAlive (deliver example_parse PongFrame (heartbeat (on_connection 0)))"
    using heartbeat_two_branches [of "heartbeat (on_connection 0)" example_parse PongFrame] b by blast+
  have c4: "\<not> isAlive (deliver example_parse CloseEvent (heartbeat (on_connection 0)))"
    using heartbeat_two_branches [of "heartbeat (on_connection 0)" example_parse CloseEvent] b by blast
  show ?thesis
    using a b c1 [unfolded n] c2 [unfolded n'] c3 c4 by blast
qed

subsection \<open>The message dispatcher\<close>

lemma on_message_cases:
  "on_message JSON_parse message ws =
     Inr (case JSON_parse message of
            Inl e \<Rightarrow> ws_send error_frame (console_error ''WebSocket message error:'' ws)
          | Inr data \<Rightarrow>
              (case get_type data of
                 Inl e \<Rightarrow> ws_send error_frame (console_error ''WebSocket message error:'' ws)
               | Inr t \<Rightarrow> if t = Some (JString ''pong'') then ws_send ack_frame ws else ws))"
  by (simp add: on_message_def message_try_def split: sum.splits)

lemma get_type_throws: "get_type data = Inl e \<longleftrightarrow> data = JNull \<and> e = TypeError"
  by (cases data) auto

lemma send_after_error_calls:
  "ws_send frame (console_error s ws) =
     ws\<lparr>calls := calls ws @ [(now ws, ConsoleError s), (now ws, WsSend frame)]\<rparr>"
  by (simp add: ws_send_def console_error_def invoke_def)

lemma ws_send_calls: "ws_send frame ws = ws\<lparr>calls := calls ws @ [(now ws, WsSend frame)]\<rparr>"
  by (simp add: ws_send_def invoke_def)

text \<open>
  C3. A frame whose payload is valid JSON and whose decoded \<open>type\<close> member is the string
  \<open>pong\<close> is answered with exactly one frame, the text \<^verbatim>\<open>{"type":"ack"}\<close>; nothing else
  is called and nothing else of the connection changes.
\<close>

theorem pong_message_acked:
  \<open>JSON_parse message = Inr data \<Longrightarrow> get_type data = Inr (Some (JString ''pong'')) \<Longrightarrow>
     on_message JSON_parse message ws = Inr (ws\<lparr>calls := calls ws @ [(now ws, WsSend ack_frame)]\<rparr>)
     \<and> deliver JSON_parse (MessageFrame message) ws
         = ws\<lparr>calls := calls ws @ [(now ws, WsSend ack_frame)]\<rparr>
     \<and> ack_frame = ''{"type":"ack"}''\<close>
  by (simp add: on_message_cases deliver_def ws_send_calls ack_frame_def)

theorem pong_message_acked_witness:
  \<open>example_parse ''{"type":"pong"}'' = Inr (JObject [(''type'', JString ''pong'')])
   \<and> get_type (JObject [(''type'', JString ''pong'')] :: nat json) = Inr (Some (JString ''pong''))
   \<and> calls (deliver example_parse (MessageFrame ''{"type":"pong"}'') (on_connection 7))
       = calls (on_connection 7) @ [(7, WsSend ''{"type":"ack"}'')]\<close>
proof -
  have p: \<open>example_parse ''{"type":"pong"}'' = Inr (JObject [(''type'', JString ''pong'')])\<close>
    by (simp add: example_parse_def)
  have g: "get_type (JObject [(''type'', JString ''pong'')] :: nat json) = Inr (Some (JString ''pong''))"
    by simp
  have n: "now (on_connection 7) = 7"
    by (simp add: on_connection_def invoke_def console_log_def)
  from pong_message_acked [of example_parse \<open>''{"type":"pong"}''\<close> "JObject [(''type'', JString ''pong'')]" "on_connection 7", OF p g]
  have \<open>deliver example_parse (MessageFrame ''{"type":"pong"}'') (on_connection 7)
         = (on_connection 7)\<lparr>calls := calls (on_connection 7) @ [(now (on_connection 7), WsSend ack_frame)]\<rparr>\<close>
    and \<open>ack_frame = ''{"type":"ack"}''\<close>
    by blast+
  then have \<open>calls (deliver example_parse (MessageFrame ''{"type":"pong"}'') (on_connection 7))
       = calls (on_connection 7) @ [(7, WsSend ''{"type":"ack"}'')]\<close>
    by (simp add: n)
  with p g show ?thesis by blast
qed

text \<open>
  C4, as the code has it. A payload that \<^verbatim>\<open>JSON.parse\<close> rejects, and the payload
  \<^verbatim>\<open>null\<close>, is answered with exactly one frame, the text
  \<^verbatim>\<open>{"type":"error","message":"Invalid message format"}\<close>, after the error is logged;
  the flag, the timer and the socket stay as they are. For no payload does an exception
  leave the handler.
\<close>

theorem undecodable_message_error_frame:
  \<open>(JSON_parse message = Inl e \<or> JSON_parse message = Inr JNull \<longrightarrow>
      on_message JSON_parse message ws
        = Inr (ws\<lparr>calls := calls ws @ [(now ws, ConsoleError ''WebSocket message error:''),
                                         (now ws, WsSend error_frame)]\<rparr>)
      \<and> isAlive (deliver JSON_parse (MessageFrame message) ws) = isAlive ws
      \<and> heartbeat_active (deliver JSON_parse (MessageFrame message) ws) = heartbeat_active ws
      \<and> socket_open (deliver JSON_parse (MessageFrame message) ws) = socket_open ws
      \<and> calls (deliver JSON_parse (MessageFrame message) ws)
          = calls ws @ [(now ws, ConsoleError ''WebSocket message error:''),
                        (now ws, WsSend error_frame)])
   \<and> error_frame = ''{"type":"error","message":"Invalid message format"}''
   \<and> (\<exists>ws'. on_message JSON_parse other ws = Inr ws')\<close>
  by (auto simp: on_message_cases deliver_def send_after_error_calls error_frame_def)

theorem undecodable_message_error_frame_witness:
  \<open>example_parse ''not json'' = Inl SyntaxError
   \<and> calls (deliver example_parse (MessageFrame ''not json'') (on_connection 7))
       = calls (on_connection 7) @ [(7, ConsoleError ''WebSocket message error:''),
                                    (7, WsSend ''{"type":"error","message":"Invalid message format"}'')]
   \<and> socket_open (deliver example_parse (MessageFrame ''not json'') (on_connection 7))\<close>
proof -
  have p: \<open>example_parse ''not json'' = Inl SyntaxError\<close>
    by (simp add: example_parse_def)
  have n: "now (on_connection 7) = 7" and o: "socket_open (on_connection 7)"
    by (simp_all add: on_connection_def invoke_def console_log_def)
  from undecodable_message_error_frame [of example_parse \<open>''not json''\<close> SyntaxError "on_connection 7"] p
  have \<open>calls (deliver example_parse (MessageFrame ''not json'') (on_connection 7))
          = calls (on_connection 7) @ [(now (on_connection 7), ConsoleError ''WebSocket message error:''),
                        (now (on_connection 7), WsSend error_frame)]\<close>
    and \<open>socket_open (deliver example_parse (MessageFrame ''not json'') (on_connection 7)) = socket_open (on_connection 7)\<close>
    and \<open>error_frame = ''{"type":"error","message":"Invalid message format"}''\<close>
    by blast+
  with p n o show ?thesis by simp
qed

theorem schema_violation_counterexample:
  \<open>example_parse ''{}'' = Inr (JObject [])
   \<and> calls (deliver example_parse (MessageFrame ''{}'') (on_connection 7)) = calls (on_connection 7)
   \<and> calls (deliver example_parse (MessageFrame ''{}'') (on_connection 7))
       \<noteq> calls (on_connection 7) @ [(7, WsSend error_frame)]\<close>
  by (simp add: example_parse_def deliver_def on_message_cases)

text \<open>
  C10, as the code has it. A payload that is valid JSON, is not \<^verbatim>\<open>null\<close>, and whose
  \<open>type\<close> member is not the string \<open>pong\<close> (or is missing) makes the handler call nothing:
  no frame is sent and the connection is left as it was.
\<close>

theorem other_message_ignored:
  "JSON_parse message = Inr data \<Longrightarrow> data \<noteq> JNull \<Longrightarrow>
   get_type data \<noteq> Inr (Some (JString ''pong'')) \<Longrightarrow>
     on_message JSON_parse message ws = Inr ws
     \<and> deliver JSON_parse (MessageFrame message) ws = ws"
  by (cases "get_type data") (auto simp: on_message_cases deliver_def get_type_throws)

theorem other_message_ignored_witness:
  \<open>example_parse ''42'' = Inr (JNumber 42)
   \<and> deliver example_parse (MessageFrame ''42'') (on_connection 7) = on_connection 7
   \<and> example_parse ''{"type":"hello"}'' = Inr (JObject [(''type'', JString ''hello'')])
   \<and> deliver example_parse (MessageFrame ''{"type":"hello"}'') (on_connection 7) = on_connection 7\<close>
proof -
  have p: \<open>example_parse ''42'' = Inr (JNumber 42)\<close>
    and q: \<open>example_parse ''{"type":"hello"}'' = Inr (JObject [(''type'', JString ''hello'')])\<close>
    by (simp_all add: example_parse_def)
  have "deliver example_parse (MessageFrame ''42'') (on_connection 7) = on_connection 7"
    using other_message_ignored [of example_parse "''42''" "JNumber 42" "on_connection 7", OF p] by simp
  moreover have \<open>deliver example_parse (MessageFrame ''{"type":"hello"}'') (on_connection 7) = on_connection 7\<close>
    using other_message_ignored [of example_parse \<open>''{"type":"hello"}''\<close> "JObject [(''type'', JString ''hello'')]" "on_connection 7", OF q] by simp
  ultimately show ?thesis using p q by blast
qed

theorem null_message_counterexample:
  \<open>example_parse ''null'' = Inr JNull
   \<and> calls (deliver example_parse (MessageFrame ''null'') (on_connection 7))
       = calls (on_connection 7) @ [(7, ConsoleError ''WebSocket message error:''),
                                    (7, WsSend error_frame)]
   \<and> calls (deliver example_parse (MessageFrame ''null'') (on_connection 7)) \<noteq> calls (on_connection 7)\<close>
  by (simp add: example_parse_def deliver_def on_message_cases send_after_error_calls
        on_connection_def invoke_def console_log_def)

subsection \<open>Runs of one connection\<close>

lemmas conn_defs =
  heartbeat_def on_pong_def on_close_def on_error_def clearInterval_def ws_terminate_def
  ws_ping_def ws_send_def invoke_def console_log_def console_error_def

lemma run_append: "run JSON_parse (xs @ ys) ws = run JSON_parse ys (run JSON_parse xs ws)"
  by (induction xs arbitrary: ws) auto

lemma deliver_tick_alive:
  "heartbeat_active ws \<Longrightarrow> isAlive ws \<Longrightarrow>
     deliver JSON_parse TimerTick ws = ws\<lparr>isAlive := False, calls := calls ws @ [(now ws, WsPing)]\<rparr>"
  by (simp add: deliver_def conn_defs)

lemma deliver_tick_dead:
  "heartbeat_active ws \<Longrightarrow> \<not> isAlive ws \<Longrightarrow>
     deliver JSON_parse TimerTick ws =
       ws\<lparr>heartbeat_active := False, cancelled := Suc (cancelled ws), socket_open := False,
          calls := calls ws @ [(now ws, ClearInterval), (now ws, WsTerminate)]\<rparr>"
  by (simp add: deliver_def conn_defs)

lemma deliver_tick_off: "\<not> heartbeat_active ws \<Longrightarrow> deliver JSON_parse TimerTick ws = ws"
  by (simp add: deliver_def)

lemma deliver_pong: "deliver JSON_parse PongFrame ws = ws\<lparr>isAlive := True\<rparr>"
  by (simp add: deliver_def conn_defs)

lemma deliver_close:
  "deliver JSON_parse CloseEvent ws =
     ws\<lparr>heartbeat_active := False,
        cancelled := (if heartbeat_active ws then Suc (cancelled ws) else cancelled ws),
        socket_open := False,
        calls := calls ws @ [(now ws, ConsoleLog ''WebSocket connection closed''),
                             (now ws, ClearInterval)]\<rparr>"
  by (simp add: deliver_def conn_defs)

lemma deliver_error:
  "deliver JSON_parse ErrorEvent ws =
     ws\<lparr>heartbeat_active := False,
        cancelled := (if heartbeat_active ws then Suc (cancelled ws) else cancelled ws),
        calls := calls ws @ [(now ws, ConsoleError ''WebSocket error:''),
                             (now ws, ClearInterval)]\<rparr>"
  by (simp add: deliver_def conn_defs)

lemma deliver_message:
  "\<exists>cs. deliver JSON_parse (MessageFrame m) ws = ws\<lparr>calls := calls ws @ cs\<rparr>
        \<and> (\<forall>c \<in> set cs. snd c \<noteq> WsTerminate \<and> snd c \<noteq> ClearInterval)"
proof -
  have "deliver JSON_parse (MessageFrame m) ws = ws
      \<or> deliver JSON_parse (MessageFrame m) ws = ws_send ack_frame ws
      \<or> deliver JSON_parse (MessageFrame m) ws
         = ws_send error_frame (console_error ''WebSocket message error:'' ws)"
    by (simp add: deliver_def on_message_cases split: sum.splits)
  then consider "deliver JSON_parse (MessageFrame m) ws = ws"
    | "deliver JSON_parse (MessageFrame m) ws = ws_send ack_frame ws"
    | "deliver JSON_parse (MessageFrame m) ws
         = ws_send error_frame (console_error ''WebSocket message error:'' ws)"
    by blast
  then show ?thesis
  proof cases
    case 1
    then have "deliver JSON_parse (MessageFrame m) ws = ws\<lparr>calls := calls ws @ []\<rparr>" by simp
    then show ?thesis by (metis empty_iff list.set(1))
  next
    case 2
    then have "deliver JSON_parse (MessageFrame m) ws
                 = ws\<lparr>calls := calls ws @ [(now ws, WsSend ack_frame)]\<rparr>"
      by (simp add: ws_send_calls)
    moreover have "\<forall>c \<in> set [(now ws, WsSend ack_frame)]. snd c \<noteq> WsTerminate \<and> snd c \<noteq> ClearInterval"
      by simp
    ultimately show ?thesis by blast
  next
    case 3
    then have "deliver JSON_parse (MessageFrame m) ws
                 = ws\<lparr>calls := calls ws @ [(now ws, ConsoleError ''WebSocket message error:''),
                                            (now ws, WsSend error_frame)]\<rparr>"
      by (simp add: send_after_error_calls)
    moreover have "\<forall>c \<in> set [(now ws, ConsoleError ''WebSocket message error:''),
                     (now ws, WsSend error_frame)]. snd c \<noteq> WsTerminate \<and> snd c \<noteq> ClearInterval"
      by simp
    ultimately show ?thesis by blast
  qed
qed

lemma terminated_at_set: "terminated_at ws = {t. (t, WsTerminate) \<in> set (calls ws)}"
  by (force simp: terminated_at_def)

lemma terminated_at_calls:
  "terminated_at (ws\<lparr>calls := calls ws' @ cs\<rparr>)
     = terminated_at ws' \<union> {t. (t, WsTerminate) \<in> set cs}"
  by (auto simp: terminated_at_set)

lemma terminated_at_other [simp]:
  "terminated_at (ws\<lparr>now := t\<rparr>) = terminated_at ws"
  "terminated_at (ws\<lparr>isAlive := b\<rparr>) = terminated_at ws"
  "terminated_at (ws\<lparr>heartbeat_active := b\<rparr>) = terminated_at ws"
  "terminated_at (ws\<lparr>cancelled := n\<rparr>) = terminated_at ws"
  "terminated_at (ws\<lparr>socket_open := b\<rparr>) = terminated_at ws"
  by (simp_all add: terminated_at_set)

lemma deliver_message_fields:
  "isAlive (deliver JSON_parse (MessageFrame m) ws) = isAlive ws"
  "heartbeat_active (deliver JSON_parse (MessageFrame m) ws) = heartbeat_active ws"
  "cancelled (deliver JSON_parse (MessageFrame m) ws) = cancelled ws"
  "socket_open (deliver JSON_parse (MessageFrame m) ws) = socket_open ws"
  "terminated_at (deliver JSON_parse (MessageFrame m) ws) = terminated_at ws"
proof -
  obtain cs where d: "deliver JSON_parse (MessageFrame m) ws = ws\<lparr>calls := calls ws @ cs\<rparr>"
    and n: "\<forall>c \<in> set cs. snd c \<noteq> WsTerminate \<and> snd c \<noteq> ClearInterval"
    using deliver_message by blast
  show "isAlive (deliver JSON_parse (MessageFrame m) ws) = isAlive ws"
    "heartbeat_active (deliver JSON_parse (MessageFrame m) ws) = heartbeat_active ws"
    "cancelled (deliver JSON_parse (MessageFrame m) ws) = cancelled ws"
    "socket_open (deliver JSON_parse (MessageFrame m) ws) = socket_open ws"
    by (simp_all add: d)
  from n have "{t. (t, WsTerminate) \<in> set cs} = {}" by force
  then show "terminated_at (deliver JSON_parse (MessageFrame m) ws) = terminated_at ws"
    by (simp add: d terminated_at_calls)
qed

text \<open>A timer that is cancelled stays cancelled, and nothing terminates the socket after that.\<close>

lemma deliver_inactive:
  "\<not> heartbeat_active ws \<Longrightarrow>
     \<not> heartbeat_active (deliver JSON_parse e ws)
     \<and> terminated_at (deliver JSON_parse e ws) = terminated_at ws
     \<and> cancelled (deliver JSON_parse e ws) = cancelled ws"
  by (cases e)
     (simp_all add: deliver_tick_off deliver_pong deliver_close deliver_error
        deliver_message_fields terminated_at_calls)

lemma run_inactive:
  "\<not> heartbeat_active ws \<Longrightarrow>
     \<not> heartbeat_active (run JSON_parse evs ws)
     \<and> terminated_at (run JSON_parse evs ws) = terminated_at ws
     \<and> cancelled (run JSON_parse evs ws) = cancelled ws"
proof (induction evs arbitrary: ws)
  case Nil
  then show ?case by simp
next
  case (Cons a evs)
  obtain t e where a: "a = (t, e)" by (cases a)
  have "\<not> heartbeat_active (ws\<lparr>now := t\<rparr>)" using Cons.prems by simp
  from deliver_inactive [OF this, of JSON_parse e]
  have s: "\<not> heartbeat_active (deliver JSON_parse e (ws\<lparr>now := t\<rparr>))"
    and t: "terminated_at (deliver JSON_parse e (ws\<lparr>now := t\<rparr>)) = terminated_at ws"
    and c: "cancelled (deliver JSON_parse e (ws\<lparr>now := t\<rparr>)) = cancelled ws"
    by simp_all
  from Cons.IH [OF s] t c show ?case by (simp add: a)
qed

text \<open>The calls of a run only grow.\<close>

lemma deliver_terminated_mono: "terminated_at ws \<subseteq> terminated_at (deliver JSON_parse e ws)"
proof (cases e)
  case TimerTick
  then show ?thesis
    by (cases "heartbeat_active ws"; cases "isAlive ws")
       (auto simp: deliver_tick_alive deliver_tick_dead deliver_tick_off terminated_at_calls)
qed (auto simp: deliver_pong deliver_close deliver_error deliver_message_fields
       terminated_at_calls)

lemma run_terminated_mono: "terminated_at ws \<subseteq> terminated_at (run JSON_parse evs ws)"
proof (induction evs arbitrary: ws)
  case Nil
  then show ?case by simp
next
  case (Cons a evs)
  obtain t e where a: "a = (t, e)" by (cases a)
  have "terminated_at ws \<subseteq> terminated_at (deliver JSON_parse e (ws\<lparr>now := t\<rparr>))"
    using deliver_terminated_mono [of "ws\<lparr>now := t\<rparr>" JSON_parse e] by simp
  with Cons.IH [of "deliver JSON_parse e (ws\<lparr>now := t\<rparr>)"] show ?case
    by (auto simp: a)
qed

subsection \<open>Cancelling the heartbeat timer\<close>

lemma on_connection_fields:
  "isAlive (on_connection t0)" "heartbeat_active (on_connection t0)"
  "cancelled (on_connection t0) = 0" "socket_open (on_connection t0)"
  "now (on_connection t0) = t0" "terminated_at (on_connection t0) = {}"
  by (simp_all add: on_connection_def conn_defs terminated_at_set)

lemma deliver_terminated_inactive:
  assumes "terminated_at ws \<noteq> {} \<longrightarrow> \<not> heartbeat_active ws"
  shows "terminated_at (deliver JSON_parse e ws) \<noteq> {} \<longrightarrow> \<not> heartbeat_active (deliver JSON_parse e ws)"
proof (cases e)
  case TimerTick
  with assms show ?thesis
    by (cases "heartbeat_active ws"; cases "isAlive ws")
       (simp_all add: deliver_tick_alive deliver_tick_dead deliver_tick_off terminated_at_calls)
qed (use assms in \<open>simp_all add: deliver_pong deliver_close deliver_error deliver_message_fields\<close>)

lemma run_terminated_inactive:
  "terminated_at ws \<noteq> {} \<longrightarrow> \<not> heartbeat_active ws \<Longrightarrow>
     terminated_at (run JSON_parse evs ws) \<noteq> {} \<longrightarrow> \<not> heartbeat_active (run JSON_parse evs ws)"
proof (induction evs arbitrary: ws)
  case Nil
  then show ?case by simp
next
  case (Cons a evs)
  obtain t e where a: "a = (t, e)" by (cases a)
  have "terminated_at (ws\<lparr>now := t\<rparr>) \<noteq> {} \<longrightarrow> \<not> heartbeat_active (ws\<lparr>now := t\<rparr>)"
    using Cons.prems by simp
  from Cons.IH [OF deliver_terminated_inactive [OF this, of JSON_parse e]] show ?case by (simp add: a)
qed

subsection \<open>Calls of clearInterval\<close>



lemma clear_calls_other [simp]:
  "clear_calls (ws\<lparr>now := t\<rparr>) = clear_calls ws"
  "clear_calls (ws\<lparr>isAlive := b\<rparr>) = clear_calls ws"
  "clear_calls (ws\<lparr>heartbeat_active := b\<rparr>) = clear_calls ws"
  "clear_calls (ws\<lparr>cancelled := n\<rparr>) = clear_calls ws"
  "clear_calls (ws\<lparr>socket_open := b\<rparr>) = clear_calls ws"
  by (simp_all add: clear_calls_def)

lemma terminations_other [simp]:
  "terminations (ws\<lparr>now := t\<rparr>) = terminations ws"
  "terminations (ws\<lparr>isAlive := b\<rparr>) = terminations ws"
  "terminations (ws\<lparr>heartbeat_active := b\<rparr>) = terminations ws"
  "terminations (ws\<lparr>cancelled := n\<rparr>) = terminations ws"
  "terminations (ws\<lparr>socket_open := b\<rparr>) = terminations ws"
  by (simp_all add: terminations_def)








subsection \<open>Detection latency of the heartbeat\<close>

text \<open>A connection that answers every probe: the flag is set whenever a tick comes.\<close>

lemma answered_never_terminated:
  "answers_every_probe answered (map snd evs) \<Longrightarrow> (answered \<longrightarrow> isAlive ws) \<Longrightarrow>
   terminated_at ws = {} \<Longrightarrow> terminated_at (run JSON_parse evs ws) = {}"
proof (induction evs arbitrary: ws answered)
  case Nil
  then show ?case by simp
next
  case (Cons a evs)
  obtain t e where a: "a = (t, e)" by (cases a)
  let ?ws = "ws\<lparr>now := t\<rparr>"
  show ?case
  proof (cases e)
    case TimerTick
    with Cons.prems a have ans: answered and rest: "answers_every_probe False (map snd evs)"
      by simp_all
    with Cons.prems have alive: "isAlive ?ws" by simp
    show ?thesis
    proof (cases "heartbeat_active ws")
      case True
      then have "deliver JSON_parse TimerTick ?ws = ?ws\<lparr>isAlive := False, calls := calls ?ws @ [(now ?ws, WsPing)]\<rparr>"
        using alive by (simp add: deliver_tick_alive)
      moreover have "terminated_at (?ws\<lparr>isAlive := False, calls := calls ?ws @ [(now ?ws, WsPing)]\<rparr>) = {}"
        using Cons.prems(3) by (simp add: terminated_at_calls)
      ultimately show ?thesis
        using Cons.IH [OF rest, of "deliver JSON_parse TimerTick ?ws"] a TimerTick by simp
    next
      case False
      then have "deliver JSON_parse TimerTick ?ws = ?ws" by (simp add: deliver_tick_off)
      then show ?thesis
        using Cons.IH [OF rest, of ?ws] Cons.prems(3) a TimerTick by simp
    qed
  next
    case PongFrame
    with Cons.prems a have rest: "answers_every_probe True (map snd evs)" by simp
    show ?thesis
      using Cons.IH [OF rest, of "?ws\<lparr>isAlive := True\<rparr>"] Cons.prems(3) a PongFrame
      by (simp add: deliver_pong)
  next
    case CloseEvent
    with Cons.prems a have rest: "answers_every_probe answered (map snd evs)" by simp
    have "\<not> heartbeat_active (deliver JSON_parse CloseEvent ?ws)"
      and "terminated_at (deliver JSON_parse CloseEvent ?ws) = {}"
      using Cons.prems(3) by (simp_all add: deliver_close terminated_at_calls)
    with run_inactive [of "deliver JSON_parse CloseEvent ?ws" JSON_parse evs]
    show ?thesis using a CloseEvent by simp
  next
    case ErrorEvent
    have "\<not> heartbeat_active (deliver JSON_parse ErrorEvent ?ws)"
      and "terminated_at (deliver JSON_parse ErrorEvent ?ws) = {}"
      using Cons.prems(3) by (simp_all add: deliver_error terminated_at_calls)
    with run_inactive [of "deliver JSON_parse ErrorEvent ?ws" JSON_parse evs]
    show ?thesis using a ErrorEvent by simp
  next
    case (MessageFrame m)
    with Cons.prems a have rest: "answers_every_probe answered (map snd evs)" by simp
    have "answered \<longrightarrow> isAlive (deliver JSON_parse (MessageFrame m) ?ws)"
      and "terminated_at (deliver JSON_parse (MessageFrame m) ?ws) = {}"
      using Cons.prems(2,3) by (simp_all add: deliver_message_fields)
    with Cons.IH [OF rest, of "deliver JSON_parse (MessageFrame m) ?ws"]
    show ?thesis using a MessageFrame by simp
  qed
qed

text \<open>
  In a run on schedule, behind an event at time \<open>p\<close> that is no tick the next tick is due
  no earlier than \<open>p\<close> and no later than one period after \<open>p\<close>.
\<close>

lemma on_schedule_split:
  "on_schedule due prev (xs @ (p, e) # ys) \<Longrightarrow> e \<noteq> TimerTick \<Longrightarrow>
   prev \<le> due \<Longrightarrow> due \<le> prev + heartbeat_period \<Longrightarrow>
     \<exists>due'. on_schedule due' p ys \<and> p \<le> due' \<and> due' \<le> p + heartbeat_period"
proof (induction xs arbitrary: due prev)
  case Nil
  then have "on_schedule due p ys" "p \<le> due" "due \<le> p + heartbeat_period"
    by simp_all
  then show ?case by blast
next
  case (Cons a xs)
  obtain t e' where a: "a = (t, e')" by (cases a)
  show ?case
  proof (cases "e' = TimerTick")
    case True
    with Cons.prems(1) a have "on_schedule (due + heartbeat_period) due (xs @ (p, e) # ys)"
      by auto
    from Cons.IH [OF this Cons.prems(2)] show ?thesis by simp
  next
    case False
    with Cons.prems(1) a have s: "on_schedule due t (xs @ (p, e) # ys)"
      and t: "prev \<le> t" "t \<le> due"
      by simp_all
    from t Cons.prems(4) have "due \<le> t + heartbeat_period" by simp
    from Cons.IH [OF s Cons.prems(2) t(2) this] show ?thesis .
  qed
qed

text \<open>
  The silent phase: with the timer scheduled and no pong to come, the socket can only be
  terminated at the next tick when the flag is false, and at the tick after the next when
  the flag is true.
\<close>

lemma silent_phase_time:
  "on_schedule due prev evs \<Longrightarrow> PongFrame \<notin> snd ` set evs \<Longrightarrow> heartbeat_active ws \<Longrightarrow>
   terminated_at ws = {} \<Longrightarrow> T \<in> terminated_at (run JSON_parse evs ws) \<Longrightarrow>
     T = (if isAlive ws then due + heartbeat_period else due)"
proof (induction evs arbitrary: ws due prev)
  case Nil
  then show ?case by simp
next
  case (Cons a evs)
  obtain t e where a: "a = (t, e)" by (cases a)
  let ?ws = "ws\<lparr>now := t\<rparr>"
  from Cons.prems(2) a have nopong: "PongFrame \<notin> snd ` set evs" and e: "e \<noteq> PongFrame"
    by auto
  from Cons.prems(5) a have T: "T \<in> terminated_at (run JSON_parse evs (deliver JSON_parse e ?ws))"
    by simp
  show ?case
  proof (cases e)
    case TimerTick
    with Cons.prems(1) a have due: "t = due" and s: "on_schedule (due + heartbeat_period) t evs"
      by auto
    show ?thesis
    proof (cases "isAlive ws")
      case True
      let ?ws' = "?ws\<lparr>isAlive := False, calls := calls ?ws @ [(now ?ws, WsPing)]\<rparr>"
      have d: "deliver JSON_parse TimerTick ?ws = ?ws'"
        using True Cons.prems(3) by (simp add: deliver_tick_alive)
      have "heartbeat_active ?ws'" "terminated_at ?ws' = {}" "\<not> isAlive ?ws'"
        using Cons.prems(3,4) by (simp_all add: terminated_at_calls)
      from Cons.IH [OF s nopong this(1,2)] T d TimerTick this(3) True show ?thesis
        by simp
    next
      case False
      let ?ws' = "?ws\<lparr>heartbeat_active := False, cancelled := Suc (cancelled ?ws), socket_open := False,
          calls := calls ?ws @ [(now ?ws, ClearInterval), (now ?ws, WsTerminate)]\<rparr>"
      have d: "deliver JSON_parse TimerTick ?ws = ?ws'"
        using False Cons.prems(3) by (simp add: deliver_tick_dead)
      have "\<not> heartbeat_active ?ws'" and "terminated_at ?ws' = {t}"
        using Cons.prems(4) by (auto simp: terminated_at_calls)
      with run_inactive [of ?ws' JSON_parse evs] T d TimerTick have "T = t" by simp
      with due False show ?thesis by simp
    qed
  next
    case PongFrame
    with e show ?thesis by simp
  next
    case CloseEvent
    have "\<not> heartbeat_active (deliver JSON_parse CloseEvent ?ws)"
      and "terminated_at (deliver JSON_parse CloseEvent ?ws) = {}"
      using Cons.prems(4) by (simp_all add: deliver_close terminated_at_calls)
    with run_inactive [of "deliver JSON_parse CloseEvent ?ws" JSON_parse evs] T CloseEvent
    show ?thesis by simp
  next
    case ErrorEvent
    have "\<not> heartbeat_active (deliver JSON_parse ErrorEvent ?ws)"
      and "terminated_at (deliver JSON_parse ErrorEvent ?ws) = {}"
      using Cons.prems(4) by (simp_all add: deliver_error terminated_at_calls)
    with run_inactive [of "deliver JSON_parse ErrorEvent ?ws" JSON_parse evs] T ErrorEvent
    show ?thesis by simp
  next
    case (MessageFrame m)
    with Cons.prems(1) a have s: "on_schedule due t evs" by simp
    let ?ws' = "deliver JSON_parse (MessageFrame m) ?ws"
    have "heartbeat_active ?ws'" "terminated_at ?ws' = {}" "isAlive ?ws' = isAlive ws"
      using Cons.prems(3,4) by (simp_all add: deliver_message_fields)
    from Cons.IH [OF s nopong this(1,2)] T MessageFrame this(3) show ?thesis
      by simp
  qed
qed

text \<open>A silent peer is terminated by the second tick, or by the first when the flag is false.\<close>

lemma silent_phase_terminates:
  "silent evs \<Longrightarrow> heartbeat_active ws \<Longrightarrow> (if isAlive ws then 2 else 1) \<le> ticks evs \<Longrightarrow>
     terminated_at (run JSON_parse evs ws) \<noteq> {}"
proof (induction evs arbitrary: ws)
  case Nil
  then show ?case by (simp split: if_splits)
next
  case (Cons a evs)
  obtain t e where a: "a = (t, e)" by (cases a)
  let ?ws = "ws\<lparr>now := t\<rparr>"
  show ?case
  proof (cases e)
    case TimerTick
    with Cons.prems(1) a have s: "silent evs" by simp
    show ?thesis
    proof (cases "isAlive ws")
      case True
      let ?ws' = "?ws\<lparr>isAlive := False, calls := calls ?ws @ [(now ?ws, WsPing)]\<rparr>"
      have d: "deliver JSON_parse TimerTick ?ws = ?ws'"
        using True Cons.prems(2) by (simp add: deliver_tick_alive)
      have "heartbeat_active ?ws'" "(if isAlive ?ws' then 2 else 1) \<le> ticks evs"
        using Cons.prems(2,3) True a TimerTick by simp_all
      from Cons.IH [OF s this] d a TimerTick show ?thesis by simp
    next
      case False
      have "t \<in> terminated_at (deliver JSON_parse TimerTick ?ws)"
        using False Cons.prems(2) by (simp add: deliver_tick_dead terminated_at_calls)
      with run_terminated_mono [of "deliver JSON_parse TimerTick ?ws" JSON_parse evs] a TimerTick
      show ?thesis by auto
    qed
  next
    case (MessageFrame m)
    with Cons.prems(1) a have s: "silent evs" by simp
    let ?ws' = "deliver JSON_parse (MessageFrame m) ?ws"
    have "heartbeat_active ?ws'" "(if isAlive ?ws' then 2 else 1) \<le> ticks evs"
      using Cons.prems(2,3) a MessageFrame by (simp_all add: deliver_message_fields)
    from Cons.IH [OF s this] a MessageFrame show ?thesis by simp
  qed (use Cons.prems(1) a in simp_all)
qed

lemma silent_no_pong: "silent evs \<Longrightarrow> PongFrame \<notin> snd ` set evs"
  by (induction evs rule: silent.induct) auto

text \<open>
  C2. With a tick every 30000 ms: a connection that answers every probe before the next
  tick is never terminated by the supervisor. When the last pong of a connection that is
  still supervised arrives at time \<open>p\<close> and no pong follows, the supervisor terminates
  the socket no earlier than one period and no later than two periods after \<open>p\<close>; and it
  does terminate it when the peer stays silent for two more ticks.
\<close>

theorem heartbeat_detection_latency:
  "heartbeat_period = 30000
   \<and> (answers_every_probe True (map snd evs) \<longrightarrow>
        terminated_at (run JSON_parse evs (on_connection t0)) = {})
   \<and> (on_schedule (t0 + heartbeat_period) t0 (pre @ (p, PongFrame) # post)
       \<and> heartbeat_active (run JSON_parse pre (on_connection t0))
       \<and> PongFrame \<notin> snd ` set post \<longrightarrow>
        (\<forall>T \<in> terminated_at (run JSON_parse (pre @ (p, PongFrame) # post) (on_connection t0)).
            p + heartbeat_period \<le> T \<and> T \<le> p + 2 * heartbeat_period)
        \<and> (silent post \<and> 2 \<le> ticks post \<longrightarrow>
              terminated_at (run JSON_parse (pre @ (p, PongFrame) # post) (on_connection t0)) \<noteq> {}))"
proof (intro conjI impI)
  show "heartbeat_period = 30000" by (simp add: heartbeat_period_def)
next
  assume "answers_every_probe True (map snd evs)"
  then show "terminated_at (run JSON_parse evs (on_connection t0)) = {}"
    by (rule answered_never_terminated) (simp_all add: on_connection_fields)
next
  let ?ws1 = "run JSON_parse pre (on_connection t0)"
  let ?ws2 = "deliver JSON_parse PongFrame (?ws1\<lparr>now := p\<rparr>)"
  assume h: "on_schedule (t0 + heartbeat_period) t0 (pre @ (p, PongFrame) # post)
       \<and> heartbeat_active ?ws1 \<and> PongFrame \<notin> snd ` set post"
  have r: "run JSON_parse (pre @ (p, PongFrame) # post) (on_connection t0) = run JSON_parse post ?ws2"
    by (simp add: run_append)
  have "terminated_at ?ws1 \<noteq> {} \<longrightarrow> \<not> heartbeat_active ?ws1"
    by (rule run_terminated_inactive) (simp add: on_connection_fields)
  with h have ws2: "heartbeat_active ?ws2" "terminated_at ?ws2 = {}" "isAlive ?ws2"
    by (simp_all add: deliver_pong)
  from h on_schedule_split [of "t0 + heartbeat_period" t0 pre p PongFrame post]
  obtain due where due: "on_schedule due p post" "p \<le> due" "due \<le> p + heartbeat_period"
    by auto
  show "\<forall>T \<in> terminated_at (run JSON_parse (pre @ (p, PongFrame) # post) (on_connection t0)).
            p + heartbeat_period \<le> T \<and> T \<le> p + 2 * heartbeat_period"
  proof
    fix T assume "T \<in> terminated_at (run JSON_parse (pre @ (p, PongFrame) # post) (on_connection t0))"
    then have "T \<in> terminated_at (run JSON_parse post ?ws2)" by (simp only: r)
    from silent_phase_time [OF due(1) _ ws2(1,2) this] h ws2(3)
    have "T = due + heartbeat_period" by simp
    with due(2,3) show "p + heartbeat_period \<le> T \<and> T \<le> p + 2 * heartbeat_period" by simp
  qed
  show "terminated_at (run JSON_parse (pre @ (p, PongFrame) # post) (on_connection t0)) \<noteq> {}"
    if "silent post \<and> 2 \<le> ticks post"
  proof -
    from that ws2(3) have "(if isAlive ?ws2 then 2 else 1) \<le> ticks post" by simp
    from silent_phase_terminates [OF _ ws2(1) this] that show ?thesis by (simp only: r) simp
  qed
qed

theorem heartbeat_detection_latency_witness:
  "on_schedule (0 + heartbeat_period) 0
     ([(30000, TimerTick)] @ (40000, PongFrame) # [(60000, TimerTick), (90000, TimerTick)])
   \<and> heartbeat_active (run example_parse [(30000, TimerTick)] (on_connection 0))
   \<and> PongFrame \<notin> snd ` set [(60000::nat, TimerTick), (90000, TimerTick)]
   \<and> silent [(60000, TimerTick), (90000, TimerTick)]
   \<and> 2 \<le> ticks [(60000, TimerTick), (90000, TimerTick)]
   \<and> 90000 \<in> terminated_at
        (run example_parse
           ([(30000, TimerTick)] @ (40000, PongFrame) # [(60000, TimerTick), (90000, TimerTick)])
           (on_connection 0))
   \<and> 40000 + heartbeat_period \<le> 90000 \<and> 90000 \<le> 40000 + 2 * heartbeat_period
   \<and> answers_every_probe True
        (map snd [(30000::nat, TimerTick), (30005, PongFrame), (60000, TimerTick), (60010, PongFrame),
                  (90000, TimerTick)])
   \<and> terminated_at
        (run example_parse
           [(30000, TimerTick), (30005, PongFrame), (60000, TimerTick), (60010, PongFrame),
            (90000, TimerTick)]
           (on_connection 0)) = {}"
proof -
  let ?pre = "[(30000, TimerTick)] :: (nat \<times> event) list"
  let ?post = "[(60000, TimerTick), (90000, TimerTick)] :: (nat \<times> event) list"
  let ?evs = "[(30000, TimerTick), (30005, PongFrame), (60000, TimerTick), (60010, PongFrame),
               (90000, TimerTick)] :: (nat \<times> event) list"
  have s: "on_schedule (0 + heartbeat_period) 0 (?pre @ (40000, PongFrame) # ?post)"
    by (simp add: heartbeat_period_def)
  have a: "heartbeat_active (run example_parse ?pre (on_connection 0))"
    by (simp add: on_connection_def deliver_def conn_defs)
  have n: "PongFrame \<notin> snd ` set ?post" by simp
  have q1: "silent ?post" and q2: "2 \<le> ticks ?post" by simp_all
  have m: "90000 \<in> terminated_at (run example_parse (?pre @ (40000, PongFrame) # ?post) (on_connection 0))"
    by (simp add: on_connection_def deliver_def conn_defs terminated_at_set)
  have r: "answers_every_probe True (map snd ?evs)" by simp
  note inst = heartbeat_detection_latency [of ?evs example_parse 0 ?pre 40000 ?post]
  have e: "terminated_at (run example_parse ?evs (on_connection 0)) = {}"
    by (rule mp [OF inst [THEN conjunct2, THEN conjunct1] r])
  have c: "\<forall>T \<in> terminated_at (run example_parse (?pre @ (40000, PongFrame) # ?post) (on_connection 0)).
            40000 + heartbeat_period \<le> T \<and> T \<le> 40000 + 2 * heartbeat_period"
    by (rule conjunct1 [OF mp [OF inst [THEN conjunct2, THEN conjunct2]]]) (intro conjI s a n)
  from bspec [OF c m] have b1: "40000 + heartbeat_period \<le> 90000"
    and b2: "90000 \<le> 40000 + 2 * heartbeat_period"
    by (rule conjunct1, rule conjunct2)
  show ?thesis
    by (intro conjI) (fact s a n q1 q2 m b1 b2 r e)+
qed

section \<open>Properties of the shutdown\<close>

lemmas proc_defs =
  pinvoke_def plog_def plog_error_def wss_close_def server_close_def set_timeout_def
  process_exit_def

lemma shutdown_expand:
  "shutdown p =
     p\<lparr>wss_close_listeners := Suc (wss_close_listeners p),
       timeouts := timeouts p @ [clock p + shutdown_timeout],
       pcalls := pcalls p @ [(clock p, Log ''Shutting down gracefully...''), (clock p, WssClose),
                             (clock p, SetTimeout shutdown_timeout)]\<rparr>"
  by (simp add: shutdown_def proc_defs)

lemma wss_closed_callback_expand:
  "wss_closed_callback p =
     p\<lparr>server_close_listeners := Suc (server_close_listeners p),
       pcalls := pcalls p @ [(clock p, Log ''WebSocket server closed''), (clock p, ServerClose)]\<rparr>"
  by (simp add: wss_closed_callback_def proc_defs)

lemma server_closed_callback_expand:
  "server_closed_callback p =
     p\<lparr>exit_code := Some 0,
       pcalls := pcalls p @ [(clock p, Log ''HTTP server closed''), (clock p, ProcessExit 0)]\<rparr>"
  by (simp add: server_closed_callback_def proc_defs)

lemma force_close_callback_expand:
  "force_close_callback p =
     p\<lparr>exit_code := Some 1,
       pcalls := pcalls p @
         [(clock p, LogError ''Could not close connections in time, forcefully shutting down''),
          (clock p, ProcessExit 1)]\<rparr>"
  by (simp add: force_close_callback_def proc_defs)

lemma on_unhandledRejection_expand:
  "on_unhandledRejection p = p\<lparr>pcalls := pcalls p @ [(clock p, LogError ''Unhandled Rejection at:'')]\<rparr>"
  by (simp add: on_unhandledRejection_def proc_defs)

lemma on_uncaughtException_expand:
  "on_uncaughtException p =
     p\<lparr>wss_close_listeners := Suc (wss_close_listeners p),
       timeouts := timeouts p @ [clock p + shutdown_timeout],
       pcalls := pcalls p @ [(clock p, LogError ''Uncaught Exception:''),
                             (clock p, Log ''Shutting down gracefully...''), (clock p, WssClose),
                             (clock p, SetTimeout shutdown_timeout)]\<rparr>"
  by (simp add: on_uncaughtException_def shutdown_def proc_defs)

lemma prun_append: "prun (xs @ ys) p = prun ys (prun xs p)"
  by (induction xs arbitrary: p) auto

lemma run_listeners_exited: "exit_code p \<noteq> None \<Longrightarrow> run_listeners n f p = p"
  by (cases n) auto

lemma run_listeners_server:
  "exit_code p = None \<Longrightarrow>
     run_listeners n server_closed_callback p = (if n = 0 then p else server_closed_callback p)"
  by (cases n) (simp_all add: run_listeners_exited server_closed_callback_expand)

lemma run_listeners_wss:
  "exit_code p = None \<Longrightarrow>
     clock (run_listeners n wss_closed_callback p) = clock p
     \<and> clients (run_listeners n wss_closed_callback p) = clients p
     \<and> timeouts (run_listeners n wss_closed_callback p) = timeouts p
     \<and> exit_code (run_listeners n wss_closed_callback p) = None
     \<and> wss_close_listeners (run_listeners n wss_closed_callback p) = wss_close_listeners p
     \<and> server_close_listeners (run_listeners n wss_closed_callback p) = server_close_listeners p + n
     \<and> exits (run_listeners n wss_closed_callback p) = exits p"
proof (induction n arbitrary: p)
  case 0
  then show ?case by simp
next
  case (Suc n)
  have "exit_code (wss_closed_callback p) = None"
    using Suc.prems by (simp add: wss_closed_callback_expand)
  from Suc.IH [OF this] Suc.prems show ?case
    by (simp add: wss_closed_callback_expand exits_def)
qed

lemma pstep_exited: "exit_code p \<noteq> None \<Longrightarrow> pstep e p = p"
  by (simp add: pstep_def)

lemma prun_exited: "exit_code p \<noteq> None \<Longrightarrow> prun evs p = p"
  by (induction evs) (simp_all add: pstep_exited)

text \<open>
  C7, as the code has it. For a termination signal the process calls, in this order,
  \<^verbatim>\<open>wss.close\<close> and \<^verbatim>\<open>setTimeout\<close> with 10000 ms, after one log line; it calls nothing
  on a connection and leaves the set of connections to the WebSocket server. When the
  WebSocket server then reports that it is closed, and the HTTP server after it, before
  the 10000 ms are over, the process calls \<^verbatim>\<open>server.close\<close> and exits with status 0.
\<close>

theorem drain_entry_actions:
  "exit_code p = None \<Longrightarrow>
     pcalls (pstep (Signal s) p)
       = pcalls p @ [(clock p, Log ''Shutting down gracefully...''), (clock p, WssClose),
                     (clock p, SetTimeout shutdown_timeout)]
     \<and> clients (pstep (Signal s) p) = clients p
     \<and> shutdown_timeout = 10000
     \<and> (timeouts p = [] \<and> wss_close_listeners p = 0 \<and> server_close_listeners p = 0
         \<and> d1 + d2 < shutdown_timeout \<longrightarrow>
          exit_code (prun [Signal s, Elapse d1, WssClosed, Elapse d2, ServerClosed] p) = Some 0
          \<and> pcalls (prun [Signal s, Elapse d1, WssClosed, Elapse d2, ServerClosed] p)
              = pcalls p @ [(clock p, Log ''Shutting down gracefully...''), (clock p, WssClose),
                            (clock p, SetTimeout shutdown_timeout),
                            (clock p + d1, Log ''WebSocket server closed''),
                            (clock p + d1, ServerClose),
                            (clock p + d1 + d2, Log ''HTTP server closed''),
                            (clock p + d1 + d2, ProcessExit 0)])"
  by (simp add: pstep_def shutdown_expand shutdown_timeout_def elapse_def
        wss_closed_callback_expand server_closed_callback_expand)

theorem drain_entry_actions_witness:
  "exit_code (running 0 [1, 2]) = None
   \<and> timeouts (running 0 [1, 2]) = [] \<and> wss_close_listeners (running 0 [1, 2]) = 0
   \<and> server_close_listeners (running 0 [1, 2]) = 0 \<and> (100::nat) + 50 < shutdown_timeout
   \<and> pcalls (pstep (Signal SIGTERM) (running 0 [1, 2]))
       = pcalls (running 0 [1, 2]) @
           [(clock (running 0 [1, 2]), Log ''Shutting down gracefully...''),
            (clock (running 0 [1, 2]), WssClose),
            (clock (running 0 [1, 2]), SetTimeout shutdown_timeout)]
   \<and> exit_code (prun [Signal SIGTERM, Elapse 100, WssClosed, Elapse 50, ServerClosed]
        (running 0 [1, 2])) = Some 0"
proof -
  have a: "exit_code (running 0 [1, 2]) = None"
    and b: "timeouts (running 0 [1, 2]) = []" "wss_close_listeners (running 0 [1, 2]) = 0"
      "server_close_listeners (running 0 [1, 2]) = 0"
    and c: "(100::nat) + 50 < shutdown_timeout"
    by (simp_all add: running_def shutdown_timeout_def)
  note inst = drain_entry_actions [OF a, of SIGTERM 100 50]
  have d: "pcalls (pstep (Signal SIGTERM) (running 0 [1, 2]))
       = pcalls (running 0 [1, 2]) @
           [(clock (running 0 [1, 2]), Log ''Shutting down gracefully...''),
            (clock (running 0 [1, 2]), WssClose),
            (clock (running 0 [1, 2]), SetTimeout shutdown_timeout)]"
    by (rule inst [THEN conjunct1])
  have e: "exit_code (prun [Signal SIGTERM, Elapse 100, WssClosed, Elapse 50, ServerClosed]
        (running 0 [1, 2])) = Some 0"
    by (rule conjunct1 [OF mp [OF inst [THEN conjunct2, THEN conjunct2, THEN conjunct2]]])
       (intro conjI b c)
  show ?thesis
    by (intro conjI) (fact a b c d e)+
qed

theorem drain_closes_no_connection_counterexample:
  "clients (running 0 [1]) = [1]
   \<and> exit_code (running 0 [1]) = None
   \<and> pcalls (pstep (Signal SIGTERM) (running 0 [1]))
       = [(0, Log ''Shutting down gracefully...''), (0, WssClose), (0, SetTimeout 10000)]
   \<and> ClientClose 1 \<notin> snd ` set (pcalls (pstep (Signal SIGTERM) (running 0 [1])))
   \<and> ClientTerminate 1 \<notin> snd ` set (pcalls (pstep (Signal SIGTERM) (running 0 [1])))"
  by (simp add: running_def pstep_def shutdown_expand shutdown_timeout_def)

text \<open>
  C8, as the code has it. An uncaught exception is logged and then runs the drain
  sequence of a termination signal. An unhandled promise rejection is logged and nothing
  else: no server is asked to close, no timeout is started and the process does not exit.
\<close>

theorem fatal_fault_handlers:
  "exit_code p = None \<Longrightarrow>
     pstep UncaughtException p = pstep (Signal s) (plog_error ''Uncaught Exception:'' p)
     \<and> pcalls (pstep UncaughtException p)
         = pcalls p @ [(clock p, LogError ''Uncaught Exception:''),
                       (clock p, Log ''Shutting down gracefully...''), (clock p, WssClose),
                       (clock p, SetTimeout shutdown_timeout)]
     \<and> pstep UnhandledRejection p
         = p\<lparr>pcalls := pcalls p @ [(clock p, LogError ''Unhandled Rejection at:'')]\<rparr>"
  by (simp add: pstep_def on_uncaughtException_expand on_unhandledRejection_expand
        shutdown_expand proc_defs)

theorem fatal_fault_handlers_witness:
  "exit_code (running 0 [1]) = None
   \<and> pcalls (pstep UncaughtException (running 0 [1]))
       = [(0, LogError ''Uncaught Exception:''), (0, Log ''Shutting down gracefully...''),
          (0, WssClose), (0, SetTimeout 10000)]
   \<and> timeouts (pstep UnhandledRejection (running 0 [1])) = []"
proof -
  have a: "exit_code (running 0 [1]) = None" by (simp add: running_def)
  note inst = fatal_fault_handlers [OF a, of SIGTERM]
  have "pcalls (pstep UncaughtException (running 0 [1]))
         = pcalls (running 0 [1]) @ [(clock (running 0 [1]), LogError ''Uncaught Exception:''),
                       (clock (running 0 [1]), Log ''Shutting down gracefully...''),
                       (clock (running 0 [1]), WssClose),
                       (clock (running 0 [1]), SetTimeout shutdown_timeout)]"
    by (rule inst [THEN conjunct2, THEN conjunct1])
  then have b: "pcalls (pstep UncaughtException (running 0 [1]))
       = [(0, LogError ''Uncaught Exception:''), (0, Log ''Shutting down gracefully...''),
          (0, WssClose), (0, SetTimeout 10000)]"
    by (simp add: running_def shutdown_timeout_def)
  have "timeouts (pstep UnhandledRejection (running 0 [1])) = timeouts (running 0 [1])"
    by (subst inst [THEN conjunct2, THEN conjunct2]) simp
  then have c: "timeouts (pstep UnhandledRejection (running 0 [1])) = []"
    by (simp add: running_def)
  show ?thesis
    by (intro conjI) (fact a b c)+
qed

theorem unhandled_rejection_counterexample:
  "pcalls (pstep UnhandledRejection (running 0 [1])) = [(0, LogError ''Unhandled Rejection at:'')]
   \<and> count_calls WssClose (pstep UnhandledRejection (running 0 [1])) = 0
   \<and> count_calls WssClose (pstep (Signal SIGTERM) (running 0 [1])) = 1
   \<and> timeouts (pstep UnhandledRejection (running 0 [1])) = []
   \<and> timeouts (pstep (Signal SIGTERM) (running 0 [1])) = [10000]
   \<and> exit_code (prun [UnhandledRejection, Elapse 10000, Elapse 50000] (running 0 [1])) = None"
  by (simp add: running_def pstep_def on_unhandledRejection_expand shutdown_expand
        shutdown_timeout_def count_calls_def elapse_def)

subsection \<open>The timeout of the drain\<close>

text \<open>
  While a timer due at \<open>T\<close> is pending in a living process the clock is before \<open>T\<close>; the
  clock of a process that has exited stands at the time of the exit, which is not after
  \<open>T\<close>. \<open>n\<close> is the time that has passed since the clock stood at \<open>c\<close>.
\<close>

lemma elapse_deadline:
  assumes "exit_code p = None" and "T \<in> set (timeouts p)" and "clock p < T" and "clock p = c + n"
  shows "clock (elapse d p) \<le> T
         \<and> (exit_code (elapse d p) = None \<longrightarrow>
              T \<in> set (timeouts (elapse d p)) \<and> clock (elapse d p) < T
              \<and> clock (elapse d p) = c + (n + d))"
proof (cases "filter (\<lambda>t. t \<le> clock p + d) (timeouts p) = []")
  case True
  then have e: "elapse d p = p\<lparr>clock := clock p + d\<rparr>"
    by (simp add: elapse_def)
  from True assms(2) have "\<not> T \<le> clock p + d"
    by (auto simp: filter_empty_conv)
  with assms e show ?thesis by simp
next
  case False
  let ?due = "filter (\<lambda>t. t \<le> clock p + d) (timeouts p)"
  from False have e: "elapse d p =
      force_close_callback (p\<lparr>clock := max (clock p) (Min (set ?due)),
                              timeouts := remove1 (Min (set ?due)) (timeouts p)\<rparr>)"
    by (simp add: elapse_def Let_def)
  from False have ne: "set ?due \<noteq> {}"
    by (metis set_empty)
  have m: "Min (set ?due) \<in> set ?due"
    by (rule Min_in [OF finite_set ne])
  then have m1: "Min (set ?due) \<le> clock p + d" by simp
  have "Min (set ?due) \<le> T"
  proof (cases "T \<le> clock p + d")
    case True
    with assms(2) have "T \<in> set ?due" by simp
    then show ?thesis by (rule Min_le [OF finite_set])
  next
    case False
    with m1 show ?thesis by simp
  qed
  with assms(3) e show ?thesis
    by (simp add: force_close_callback_expand)
qed

lemma pstep_deadline:
  assumes "clock p \<le> T"
    and "exit_code p = None \<longrightarrow> T \<in> set (timeouts p) \<and> clock p < T \<and> clock p = c + n"
  shows "clock (pstep e p) \<le> T
         \<and> (exit_code (pstep e p) = None \<longrightarrow>
              T \<in> set (timeouts (pstep e p)) \<and> clock (pstep e p) < T
              \<and> clock (pstep e p) = c + (n + elapsed [e]))"
proof (cases "exit_code p = None")
  case False
  then have "pstep e p = p" by (rule pstep_exited)
  with False assms(1) show ?thesis by auto
next
  case True
  with assms(2) have h: "T \<in> set (timeouts p)" "clock p < T" "clock p = c + n"
    by simp_all
  show ?thesis
  proof (cases e)
    case (Signal s)
    with True h show ?thesis by (simp add: pstep_def shutdown_expand)
  next
    case UncaughtException
    with True h show ?thesis by (simp add: pstep_def on_uncaughtException_expand)
  next
    case UnhandledRejection
    with True h show ?thesis by (simp add: pstep_def on_unhandledRejection_expand)
  next
    case WssClosed
    have "exit_code (p\<lparr>wss_close_listeners := 0\<rparr>) = None" using True by simp
    from run_listeners_wss [OF this, of "wss_close_listeners p"] True h WssClosed
    show ?thesis by (simp add: pstep_def)
  next
    case ServerClosed
    have "exit_code (p\<lparr>server_close_listeners := 0\<rparr>) = None" using True by simp
    from run_listeners_server [OF this, of "server_close_listeners p"] True h ServerClosed
    show ?thesis by (simp add: pstep_def server_closed_callback_expand)
  next
    case (Elapse d)
    from elapse_deadline [OF True h, of d] True Elapse show ?thesis
      by (auto simp: pstep_def)
  qed
qed

lemma prun_deadline:
  "clock p \<le> T \<Longrightarrow>
   exit_code p = None \<longrightarrow> T \<in> set (timeouts p) \<and> clock p < T \<and> clock p = c + n \<Longrightarrow>
     clock (prun evs p) \<le> T
     \<and> (exit_code (prun evs p) = None \<longrightarrow>
          T \<in> set (timeouts (prun evs p)) \<and> clock (prun evs p) < T
          \<and> clock (prun evs p) = c + (n + elapsed evs))"
proof (induction evs arbitrary: p n)
  case Nil
  then show ?case by auto
next
  case (Cons e evs)
  from pstep_deadline [OF Cons.prems, of e]
  have a: "clock (pstep e p) \<le> T"
    and b: "exit_code (pstep e p) = None \<longrightarrow>
              T \<in> set (timeouts (pstep e p)) \<and> clock (pstep e p) < T
              \<and> clock (pstep e p) = c + (n + elapsed [e])"
    by blast+
  have "n + elapsed [e] + elapsed evs = n + elapsed (e # evs)"
    by (cases e) simp_all
  with Cons.IH [OF a b] show ?case by (auto simp: add.assoc)
qed

text \<open>Once \<open>shutdown\<close> has run, the process has exited when 10000 ms have passed.\<close>

lemma shutdown_deadline:
  assumes "exit_code p = None"
  shows "clock (prun evs (shutdown p)) \<le> clock p + shutdown_timeout"
    and "shutdown_timeout \<le> elapsed evs \<Longrightarrow> exit_code (prun evs (shutdown p)) \<noteq> None"
proof -
  let ?T = "clock p + shutdown_timeout"
  have "clock (shutdown p) \<le> ?T"
    and "exit_code (shutdown p) = None \<longrightarrow>
           ?T \<in> set (timeouts (shutdown p)) \<and> clock (shutdown p) < ?T
           \<and> clock (shutdown p) = clock p + 0"
    by (simp_all add: shutdown_expand shutdown_timeout_def)
  from prun_deadline [OF this, of evs]
  have a: "clock (prun evs (shutdown p)) \<le> ?T"
    and b: "exit_code (prun evs (shutdown p)) = None \<longrightarrow>
             clock (prun evs (shutdown p)) < ?T
             \<and> clock (prun evs (shutdown p)) = clock p + (0 + elapsed evs)"
    by blast+
  from a show "clock (prun evs (shutdown p)) \<le> clock p + shutdown_timeout" .
  from b show "exit_code (prun evs (shutdown p)) \<noteq> None" if "shutdown_timeout \<le> elapsed evs"
    using that by auto
qed

text \<open>While the WebSocket server does not report closed, the only exit is the forced one.\<close>

lemma pstep_forced_only:
  assumes "server_close_listeners p = 0" and "exit_code p = None \<or> exit_code p = Some 1"
    and "e \<noteq> WssClosed"
  shows "server_close_listeners (pstep e p) = 0
         \<and> (exit_code (pstep e p) = None \<or> exit_code (pstep e p) = Some 1)"
proof (cases "exit_code p = None")
  case False
  then have "pstep e p = p" by (rule pstep_exited)
  with assms show ?thesis by auto
next
  case True
  show ?thesis
  proof (cases e)
    case ServerClosed
    have "exit_code (p\<lparr>server_close_listeners := 0\<rparr>) = None" using True by simp
    from run_listeners_server [OF this, of 0] True assms ServerClosed show ?thesis
      by (simp add: pstep_def)
  next
    case (Elapse d)
    with True assms show ?thesis
      by (simp add: pstep_def elapse_def Let_def force_close_callback_expand)
  qed (use True assms in \<open>simp_all add: pstep_def shutdown_expand on_uncaughtException_expand
         on_unhandledRejection_expand\<close>)
qed

lemma prun_forced_only:
  "server_close_listeners p = 0 \<Longrightarrow> exit_code p = None \<or> exit_code p = Some 1 \<Longrightarrow>
   WssClosed \<notin> set evs \<Longrightarrow>
     server_close_listeners (prun evs p) = 0
     \<and> (exit_code (prun evs p) = None \<or> exit_code (prun evs p) = Some 1)"
proof (induction evs arbitrary: p)
  case Nil
  then show ?case by simp
next
  case (Cons e evs)
  from Cons.prems(3) have e: "e \<noteq> WssClosed" and evs: "WssClosed \<notin> set evs" by auto
  from pstep_forced_only [OF Cons.prems(1,2) e]
  have "server_close_listeners (pstep e p) = 0"
    and "exit_code (pstep e p) = None \<or> exit_code (pstep e p) = Some 1"
    by blast+
  from Cons.IH [OF this evs] show ?case by simp
qed

subsection \<open>Repeated termination signals\<close>

lemma pstep_exits:
  assumes "exits p = (if exit_code p = None then 0 else 1)"
  shows "exits (pstep e p) = (if exit_code (pstep e p) = None then 0 else 1)"
proof (cases "exit_code p = None")
  case False
  then have "pstep e p = p" by (rule pstep_exited)
  with assms show ?thesis by simp
next
  case True
  with assms have z: "exits p = 0" by simp
  show ?thesis
  proof (cases e)
    case WssClosed
    have "exit_code (p\<lparr>wss_close_listeners := 0\<rparr>) = None" using True by simp
    from run_listeners_wss [OF this, of "wss_close_listeners p"] True z WssClosed
    show ?thesis by (simp add: pstep_def exits_def)
  next
    case ServerClosed
    have "exit_code (p\<lparr>server_close_listeners := 0\<rparr>) = None" using True by simp
    from run_listeners_server [OF this, of "server_close_listeners p"] True z ServerClosed
    show ?thesis by (simp add: pstep_def server_closed_callback_expand exits_def)
  next
    case (Elapse d)
    with True z show ?thesis
      by (simp add: pstep_def elapse_def Let_def force_close_callback_expand exits_def)
  qed (use True z in \<open>simp_all add: pstep_def shutdown_expand on_uncaughtException_expand
         on_unhandledRejection_expand exits_def\<close>)
qed

lemma prun_exits:
  "exits p = (if exit_code p = None then 0 else 1) \<Longrightarrow>
     exits (prun evs p) = (if exit_code (prun evs p) = None then 0 else 1)"
proof (induction evs arbitrary: p)
  case Nil
  then show ?case by simp
next
  case (Cons e evs)
  from Cons.IH [OF pstep_exits [OF Cons.prems, of e]] show ?case by simp
qed

subsection \<open>The forced exit\<close>

text \<open>
  While the WebSocket server does not report closed, a process that has exited was
  exited by the callback of a timeout: its last two calls are the error log and
  \<^verbatim>\<open>process.exit(1)\<close>, made at the time of the exit. \<open>L\<close> is a time before which no
  pending timeout is due.
\<close>

lemma pstep_forced_exit:
  assumes "server_close_listeners p = 0"
    and "exit_code p = None \<longrightarrow> c \<le> clock p \<and> (\<forall>t \<in> set (timeouts p). L \<le> t)"
    and "exit_code p \<noteq> None \<longrightarrow>
           exit_code p = Some 1 \<and> L \<le> clock p
           \<and> last (pcalls p) = (clock p, ProcessExit 1)
           \<and> last (butlast (pcalls p)) =
                (clock p, LogError ''Could not close connections in time, forcefully shutting down'')"
    and "L \<le> c + shutdown_timeout" and "e \<noteq> WssClosed"
  shows "server_close_listeners (pstep e p) = 0
     \<and> (exit_code (pstep e p) = None \<longrightarrow>
           c \<le> clock (pstep e p) \<and> (\<forall>t \<in> set (timeouts (pstep e p)). L \<le> t))
     \<and> (exit_code (pstep e p) \<noteq> None \<longrightarrow>
           exit_code (pstep e p) = Some 1 \<and> L \<le> clock (pstep e p)
           \<and> last (pcalls (pstep e p)) = (clock (pstep e p), ProcessExit 1)
           \<and> last (butlast (pcalls (pstep e p))) =
                (clock (pstep e p),
                 LogError ''Could not close connections in time, forcefully shutting down''))"
proof (cases "exit_code p = None")
  case False
  then have "pstep e p = p" by (rule pstep_exited)
  with False assms show ?thesis by auto
next
  case True
  with assms(2) have h: "c \<le> clock p" "\<forall>t \<in> set (timeouts p). L \<le> t" by simp_all
  show ?thesis
  proof (cases e)
    case (Signal s)
    with True h assms(1,4) show ?thesis by (auto simp: pstep_def shutdown_expand)
  next
    case UncaughtException
    with True h assms(1,4) show ?thesis by (auto simp: pstep_def on_uncaughtException_expand)
  next
    case UnhandledRejection
    with True h assms(1) show ?thesis by (auto simp: pstep_def on_unhandledRejection_expand)
  next
    case WssClosed
    with assms(5) show ?thesis by simp
  next
    case ServerClosed
    have "exit_code (p\<lparr>server_close_listeners := 0\<rparr>) = None" using True by simp
    from run_listeners_server [OF this, of 0] True h assms(1) ServerClosed show ?thesis
      by (auto simp: pstep_def)
  next
    case (Elapse d)
    show ?thesis
    proof (cases "filter (\<lambda>t. t \<le> clock p + d) (timeouts p) = []")
      case True
      with \<open>exit_code p = None\<close> h assms(1) Elapse show ?thesis
        by (auto simp: pstep_def elapse_def)
    next
      case False
      let ?due = "filter (\<lambda>t. t \<le> clock p + d) (timeouts p)"
      from False have ne: "set ?due \<noteq> {}" by (metis set_empty)
      have "Min (set ?due) \<in> set ?due" by (rule Min_in [OF finite_set ne])
      with h(2) have "L \<le> Min (set ?due)" by simp
      with False \<open>exit_code p = None\<close> assms(1) Elapse show ?thesis
        by (simp add: pstep_def elapse_def Let_def force_close_callback_expand butlast_append)
    qed
  qed
qed

lemma prun_forced_exit:
  "server_close_listeners p = 0 \<Longrightarrow>
   exit_code p = None \<longrightarrow> c \<le> clock p \<and> (\<forall>t \<in> set (timeouts p). L \<le> t) \<Longrightarrow>
   exit_code p \<noteq> None \<longrightarrow>
           exit_code p = Some 1 \<and> L \<le> clock p
           \<and> last (pcalls p) = (clock p, ProcessExit 1)
           \<and> last (butlast (pcalls p)) =
                (clock p, LogError ''Could not close connections in time, forcefully shutting down'') \<Longrightarrow>
   L \<le> c + shutdown_timeout \<Longrightarrow> WssClosed \<notin> set evs \<Longrightarrow>
     exit_code (prun evs p) \<noteq> None \<longrightarrow>
           exit_code (prun evs p) = Some 1 \<and> L \<le> clock (prun evs p)
           \<and> last (pcalls (prun evs p)) = (clock (prun evs p), ProcessExit 1)
           \<and> last (butlast (pcalls (prun evs p))) =
                (clock (prun evs p),
                 LogError ''Could not close connections in time, forcefully shutting down'')"
proof (induction evs arbitrary: p)
  case Nil
  then show ?case by simp
next
  case (Cons e evs)
  from Cons.prems(5) have e: "e \<noteq> WssClosed" and evs: "WssClosed \<notin> set evs" by auto
  from pstep_forced_exit [OF Cons.prems(1,2,3,4) e]
  have a: "server_close_listeners (pstep e p) = 0"
    and b: "exit_code (pstep e p) = None \<longrightarrow>
           c \<le> clock (pstep e p) \<and> (\<forall>t \<in> set (timeouts (pstep e p)). L \<le> t)"
    and d: "exit_code (pstep e p) \<noteq> None \<longrightarrow>
           exit_code (pstep e p) = Some 1 \<and> L \<le> clock (pstep e p)
           \<and> last (pcalls (pstep e p)) = (clock (pstep e p), ProcessExit 1)
           \<and> last (butlast (pcalls (pstep e p))) =
                (clock (pstep e p),
                 LogError ''Could not close connections in time, forcefully shutting down'')"
    by blast+
  from Cons.IH [OF a b d Cons.prems(4) evs] show ?case by simp
qed

text \<open>
  C6. A termination signal starts the drain with a timeout of 10000 ms. From then on
  the process has exited when 10000 ms have passed, whatever else happens, and its clock
  never gets past the time of the timeout. When the WebSocket server never reports that
  the connections are closed, the exit is made by the callback of the timeout: it logs
  the error and calls \<^verbatim>\<open>process.exit(1)\<close>, and with no older timeout pending it does so
  exactly 10000 ms after the signal.
\<close>

theorem bounded_shutdown:
  "exit_code p = None \<Longrightarrow>
     shutdown_timeout = 10000
     \<and> pcalls (pstep (Signal s) p)
         = pcalls p @ [(clock p, Log ''Shutting down gracefully...''), (clock p, WssClose),
                       (clock p, SetTimeout shutdown_timeout)]
     \<and> timeouts (pstep (Signal s) p) = timeouts p @ [clock p + shutdown_timeout]
     \<and> clock (prun evs (pstep (Signal s) p)) \<le> clock p + shutdown_timeout
     \<and> (shutdown_timeout \<le> elapsed evs \<longrightarrow> exit_code (prun evs (pstep (Signal s) p)) \<noteq> None)
     \<and> (shutdown_timeout \<le> elapsed evs \<and> WssClosed \<notin> set evs \<and> server_close_listeners p = 0
          \<longrightarrow> exit_code (prun evs (pstep (Signal s) p)) = Some 1
              \<and> last (pcalls (prun evs (pstep (Signal s) p)))
                  = (clock (prun evs (pstep (Signal s) p)), ProcessExit 1)
              \<and> last (butlast (pcalls (prun evs (pstep (Signal s) p))))
                  = (clock (prun evs (pstep (Signal s) p)),
                     LogError ''Could not close connections in time, forcefully shutting down'')
              \<and> (timeouts p = [] \<longrightarrow>
                   clock (prun evs (pstep (Signal s) p)) = clock p + shutdown_timeout))"
proof -
  assume alive: "exit_code p = None"
  let ?q = "prun evs (shutdown p)"
  from alive have s: "pstep (Signal s) p = shutdown p" by (simp add: pstep_def)
  have start: "pcalls (shutdown p)
         = pcalls p @ [(clock p, Log ''Shutting down gracefully...''), (clock p, WssClose),
                       (clock p, SetTimeout shutdown_timeout)]"
    "timeouts (shutdown p) = timeouts p @ [clock p + shutdown_timeout]"
    by (simp_all add: shutdown_expand)
  note bound = shutdown_deadline [OF alive, of evs]
  have forced: "exit_code ?q = Some 1
      \<and> last (pcalls ?q) = (clock ?q, ProcessExit 1)
      \<and> last (butlast (pcalls ?q))
          = (clock ?q, LogError ''Could not close connections in time, forcefully shutting down'')
      \<and> (timeouts p = [] \<longrightarrow> clock ?q = clock p + shutdown_timeout)"
    if h: "shutdown_timeout \<le> elapsed evs" "WssClosed \<notin> set evs" "server_close_listeners p = 0"
  proof -
    from bound(2) [OF h(1)] have ex: "exit_code ?q \<noteq> None" .
    have a: "server_close_listeners (shutdown p) = 0"
      and n: "exit_code (shutdown p) \<noteq> None \<longrightarrow>
           exit_code (shutdown p) = Some 1 \<and> L \<le> clock (shutdown p)
           \<and> last (pcalls (shutdown p)) = (clock (shutdown p), ProcessExit 1)
           \<and> last (butlast (pcalls (shutdown p))) =
                (clock (shutdown p),
                 LogError ''Could not close connections in time, forcefully shutting down'')" for L
      using alive h(3) by (simp_all add: shutdown_expand)
    have "exit_code (shutdown p) = None \<longrightarrow>
            clock p \<le> clock (shutdown p) \<and> (\<forall>t \<in> set (timeouts (shutdown p)). 0 \<le> t)"
      by (simp add: shutdown_expand)
    from prun_forced_exit [OF a this n _ h(2)] ex
    have one: "exit_code ?q = Some 1" "last (pcalls ?q) = (clock ?q, ProcessExit 1)"
      "last (butlast (pcalls ?q))
          = (clock ?q, LogError ''Could not close connections in time, forcefully shutting down'')"
      by simp_all
    have "clock ?q = clock p + shutdown_timeout" if "timeouts p = []"
    proof -
      have "exit_code (shutdown p) = None \<longrightarrow>
            clock p \<le> clock (shutdown p)
            \<and> (\<forall>t \<in> set (timeouts (shutdown p)). clock p + shutdown_timeout \<le> t)"
        using that by (simp add: shutdown_expand)
      from prun_forced_exit [OF a this n _ h(2)] ex
      have "clock p + shutdown_timeout \<le> clock ?q" by simp
      with bound(1) show ?thesis by simp
    qed
    with one show ?thesis by blast
  qed
  from start bound forced show ?thesis
    by (simp only: s) (simp add: shutdown_timeout_def)
qed

theorem bounded_shutdown_witness:
  "exit_code (running 0 [1, 2, 3]) = None
   \<and> shutdown_timeout \<le> elapsed [Elapse 4000, Elapse 6000]
   \<and> WssClosed \<notin> set [Elapse 4000, Elapse 6000]
   \<and> server_close_listeners (running 0 [1, 2, 3]) = 0
   \<and> timeouts (running 0 [1, 2, 3]) = []
   \<and> timeouts (pstep (Signal SIGINT) (running 0 [1, 2, 3]))
       = timeouts (running 0 [1, 2, 3]) @ [clock (running 0 [1, 2, 3]) + shutdown_timeout]
   \<and> exit_code (prun [Elapse 4000, Elapse 6000] (pstep (Signal SIGINT) (running 0 [1, 2, 3]))) = Some 1
   \<and> last (pcalls (prun [Elapse 4000, Elapse 6000] (pstep (Signal SIGINT) (running 0 [1, 2, 3]))))
       = (clock (prun [Elapse 4000, Elapse 6000] (pstep (Signal SIGINT) (running 0 [1, 2, 3]))),
          ProcessExit 1)
   \<and> clock (prun [Elapse 4000, Elapse 6000] (pstep (Signal SIGINT) (running 0 [1, 2, 3])))
       = clock (running 0 [1, 2, 3]) + shutdown_timeout"
proof -
  let ?p = "running 0 [1, 2, 3]"
  let ?q = "prun [Elapse 4000, Elapse 6000] (pstep (Signal SIGINT) ?p)"
  have a: "exit_code ?p = None"
    and b: "shutdown_timeout \<le> elapsed [Elapse 4000, Elapse 6000]"
    and c: "WssClosed \<notin> set [Elapse 4000, Elapse 6000]"
    and d: "server_close_listeners ?p = 0"
    and e: "timeouts ?p = []"
    by (simp_all add: running_def shutdown_timeout_def)
  note inst = bounded_shutdown [OF a, of SIGINT "[Elapse 4000, Elapse 6000]"]
  have f: "timeouts (pstep (Signal SIGINT) ?p) = timeouts ?p @ [clock ?p + shutdown_timeout]"
    by (rule inst [THEN conjunct2, THEN conjunct2, THEN conjunct1])
  note forced = mp [OF inst [THEN conjunct2, THEN conjunct2, THEN conjunct2, THEN conjunct2,
                             THEN conjunct2] conjI [OF b conjI [OF c d]]]
  have g: "exit_code ?q = Some 1"
    by (rule forced [THEN conjunct1])
  have h: "last (pcalls ?q) = (clock ?q, ProcessExit 1)"
    by (rule forced [THEN conjunct2, THEN conjunct1])
  have i: "clock ?q = clock ?p + shutdown_timeout"
    by (rule mp [OF forced [THEN conjunct2, THEN conjunct2, THEN conjunct2] e])
  show ?thesis
    by (intro conjI) (fact a b c d e f g h i)+
qed

subsection \<open>Repeated termination signals\<close>

text \<open>
  C5, as the code has it. \<open>shutdown\<close> keeps no state. While a connection is still open
  (so that the drain of the first signal is still under way), a second termination
  signal runs the entry actions of the drain again: two signals in immediate succession
  call \<^verbatim>\<open>wss.close\<close> twice and start two timeouts. The process still exits at most
  once, and exactly once when 10000 ms have passed after the signals.
\<close>

theorem repeated_signal_repeats_drain:
  "exit_code p = None \<Longrightarrow> clients p \<noteq> [] \<Longrightarrow>
     pcalls (prun [Signal s1, Signal s2] p)
       = pcalls p @ [(clock p, Log ''Shutting down gracefully...''), (clock p, WssClose),
                     (clock p, SetTimeout shutdown_timeout),
                     (clock p, Log ''Shutting down gracefully...''), (clock p, WssClose),
                     (clock p, SetTimeout shutdown_timeout)]
     \<and> timeouts (prun [Signal s1, Signal s2] p)
         = timeouts p @ [clock p + shutdown_timeout, clock p + shutdown_timeout]
     \<and> wss_close_listeners (prun [Signal s1, Signal s2] p) = wss_close_listeners p + 2
     \<and> clients (prun [Signal s1, Signal s2] p) = clients p
     \<and> exit_code (prun [Signal s1, Signal s2] p) = None
     \<and> (exits p = 0 \<longrightarrow>
          exits (prun ([Signal s1, Signal s2] @ evs) p) \<le> 1
          \<and> (shutdown_timeout \<le> elapsed evs \<longrightarrow> exits (prun ([Signal s1, Signal s2] @ evs) p) = 1))"
proof -
  assume alive: "exit_code p = None"
  then have two: "prun [Signal s1, Signal s2] p = shutdown (shutdown p)"
    by (simp add: pstep_def shutdown_expand)
  have alive1: "exit_code (shutdown p) = None"
    using alive by (simp add: shutdown_expand)
  have e: "exits (prun evs (shutdown (shutdown p)))
             = (if exit_code (prun evs (shutdown (shutdown p))) = None then 0 else 1)"
    if "exits p = 0"
    by (rule prun_exits) (use that alive in \<open>simp add: shutdown_expand exits_def\<close>)
  have "exits (prun ([Signal s1, Signal s2] @ evs) p) \<le> 1
        \<and> (shutdown_timeout \<le> elapsed evs \<longrightarrow> exits (prun ([Signal s1, Signal s2] @ evs) p) = 1)"
    if "exits p = 0"
    using e [OF that] shutdown_deadline(2) [OF alive1, of evs]
    by (auto simp only: prun_append two split: if_splits)
  moreover have "pcalls (prun [Signal s1, Signal s2] p)
       = pcalls p @ [(clock p, Log ''Shutting down gracefully...''), (clock p, WssClose),
                     (clock p, SetTimeout shutdown_timeout),
                     (clock p, Log ''Shutting down gracefully...''), (clock p, WssClose),
                     (clock p, SetTimeout shutdown_timeout)]"
    and "timeouts (prun [Signal s1, Signal s2] p)
         = timeouts p @ [clock p + shutdown_timeout, clock p + shutdown_timeout]"
    and "wss_close_listeners (prun [Signal s1, Signal s2] p) = wss_close_listeners p + 2"
    and "clients (prun [Signal s1, Signal s2] p) = clients p"
    and "exit_code (prun [Signal s1, Signal s2] p) = None"
    using alive by (simp_all only: two) (simp_all add: shutdown_expand)
  ultimately show ?thesis by blast
qed

theorem repeated_signal_repeats_drain_witness:
  "exit_code (running 0 [1]) = None \<and> clients (running 0 [1]) \<noteq> [] \<and> exits (running 0 [1]) = 0
   \<and> shutdown_timeout \<le> elapsed [Elapse 10000]
   \<and> timeouts (prun [Signal SIGTERM, Signal SIGINT] (running 0 [1]))
       = timeouts (running 0 [1]) @
           [clock (running 0 [1]) + shutdown_timeout, clock (running 0 [1]) + shutdown_timeout]
   \<and> exits (prun ([Signal SIGTERM, Signal SIGINT] @ [Elapse 10000]) (running 0 [1])) = 1"
proof -
  have a: "exit_code (running 0 [1]) = None" and a': "clients (running 0 [1]) \<noteq> []"
    and b: "exits (running 0 [1]) = 0"
    and c: "shutdown_timeout \<le> elapsed [Elapse 10000]"
    by (simp_all add: running_def exits_def shutdown_timeout_def)
  note inst = repeated_signal_repeats_drain [OF a a', of SIGTERM SIGINT "[Elapse 10000]"]
  have d: "timeouts (prun [Signal SIGTERM, Signal SIGINT] (running 0 [1]))
       = timeouts (running 0 [1]) @
           [clock (running 0 [1]) + shutdown_timeout, clock (running 0 [1]) + shutdown_timeout]"
    by (rule inst [THEN conjunct2, THEN conjunct1])
  have e: "exits (prun ([Signal SIGTERM, Signal SIGINT] @ [Elapse 10000]) (running 0 [1])) = 1"
    by (rule mp [OF conjunct2 [OF mp [OF inst [THEN conjunct2, THEN conjunct2, THEN conjunct2,
                                               THEN conjunct2, THEN conjunct2] b]] c])
  show ?thesis
    by (intro conjI) (fact a a' b c d e)+
qed

theorem second_signal_counterexample:
  "clients (running 0 [1]) = [1]
   \<and> exit_code (prun [Signal SIGTERM] (running 0 [1])) = None
   \<and> count_calls WssClose (prun [Signal SIGTERM] (running 0 [1])) = 1
   \<and> count_calls (SetTimeout 10000) (prun [Signal SIGTERM] (running 0 [1])) = 1
   \<and> count_calls WssClose (prun [Signal SIGTERM, Signal SIGTERM] (running 0 [1])) = 2
   \<and> count_calls (SetTimeout 10000) (prun [Signal SIGTERM, Signal SIGTERM] (running 0 [1])) = 2
   \<and> timeouts (prun [Signal SIGTERM, Signal SIGTERM] (running 0 [1])) = [10000, 10000]"
  by (simp add: running_def pstep_def shutdown_expand shutdown_timeout_def count_calls_def)

end
